theory Spec2Isabelle
  imports Main "HOL-Library.Sublist"
begin

section \<open>JavaScript numbers\<close>

text \<open>
  The program computes with JavaScript numbers, which are IEEE 754 doubles. The numbers
  of the program hold integers (byte counts, part counts, millisecond timestamps), an
  infinity or \<open>NaN\<close> (a division by zero does not raise, and a missing HTTP header
  converts to \<open>NaN\<close>); \<open>Finite n\<close> is the double that holds the integer \<open>n\<close>.
  Every comparison with \<open>NaN\<close> is false. A double has 53 significant bits: an
  operation whose exact result needs more is rounded to the nearest double, ties to the
  even one, and a result of magnitude \<open>2 ^ 1024\<close> or more is an infinity.
\<close>

datatype jsnum = Finite int | PosInfinity | NegInfinity | NaN

text \<open>The number of binary digits of a natural number.\<close>

fun bit_length :: "nat \<Rightarrow> nat" where
  "bit_length n = (if n = 0 then 0 else Suc (bit_length (n div 2)))"

declare bit_length.simps [simp del]

text \<open>\<open>rne x y\<close>, for \<open>y > 0\<close>: the integer nearest to \<open>x / y\<close>, ties to the even one.\<close>

definition rne :: "int \<Rightarrow> int \<Rightarrow> int" where
  "rne x y =
     (let f = x div y; r = x mod y in
        if 2 * r < y then f else if y < 2 * r then f + 1 else if even f then f else f + 1)"

text \<open>
  The double nearest to an integer: an integer of more than 53 bits loses its low
  \<open>s\<close> bits, where \<open>s\<close> is the number of bits beyond 53.
\<close>

definition fl_int :: "int \<Rightarrow> jsnum" where
  "fl_int n =
     (let s = bit_length (nat \<bar>n\<bar>) - 53; m = rne n (2 ^ s) * 2 ^ s in
        if 2 ^ 1024 \<le> \<bar>m\<bar> then (if 0 < n then PosInfinity else NegInfinity)
        else Finite m)"

fun js_gt :: "jsnum \<Rightarrow> jsnum \<Rightarrow> bool" where
  "js_gt NaN _ = False"
| "js_gt _ NaN = False"
| "js_gt (Finite a) (Finite b) = (a > b)"
| "js_gt PosInfinity PosInfinity = False"
| "js_gt PosInfinity _ = True"
| "js_gt _ PosInfinity = False"
| "js_gt NegInfinity _ = False"
| "js_gt (Finite a) NegInfinity = True"

fun js_eq :: "jsnum \<Rightarrow> jsnum \<Rightarrow> bool" where
  "js_eq NaN _ = False"
| "js_eq _ NaN = False"
| "js_eq a b = (a = b)"

definition js_lt :: "jsnum \<Rightarrow> jsnum \<Rightarrow> bool" where
  "js_lt a b = js_gt b a"

definition js_ge :: "jsnum \<Rightarrow> jsnum \<Rightarrow> bool" where
  "js_ge a b = (js_gt a b \<or> js_eq a b)"

definition js_le :: "jsnum \<Rightarrow> jsnum \<Rightarrow> bool" where
  "js_le a b = (js_gt b a \<or> js_eq a b)"

fun js_neg :: "jsnum \<Rightarrow> jsnum" where
  "js_neg (Finite a) = Finite (- a)"
| "js_neg PosInfinity = NegInfinity"
| "js_neg NegInfinity = PosInfinity"
| "js_neg NaN = NaN"

text \<open>Addition and subtraction round their result.\<close>

fun js_add :: "jsnum \<Rightarrow> jsnum \<Rightarrow> jsnum" where
  "js_add NaN _ = NaN"
| "js_add _ NaN = NaN"
| "js_add (Finite a) (Finite b) = fl_int (a + b)"
| "js_add PosInfinity NegInfinity = NaN"
| "js_add NegInfinity PosInfinity = NaN"
| "js_add PosInfinity _ = PosInfinity"
| "js_add NegInfinity _ = NegInfinity"
| "js_add (Finite a) b = b"

definition js_sub :: "jsnum \<Rightarrow> jsnum \<Rightarrow> jsnum" where
  "js_sub a b = js_add a (js_neg b)"

text \<open>\<open>Math.max\<close> and \<open>Math.min\<close>: \<open>NaN\<close> if either argument is \<open>NaN\<close>.\<close>

definition js_max :: "jsnum \<Rightarrow> jsnum \<Rightarrow> jsnum" where
  "js_max a b = (if a = NaN \<or> b = NaN then NaN else if js_gt b a then b else a)"

definition js_min :: "jsnum \<Rightarrow> jsnum \<Rightarrow> jsnum" where
  "js_min a b = (if a = NaN \<or> b = NaN then NaN else if js_gt a b then b else a)"

text \<open>
  The quotient \<open>p / q\<close> of two positive integers, rounded to a double. The double is
  \<open>m / 2 ^ k\<close> (or \<open>m * 2 ^ (- k)\<close> when \<open>k\<close> is negative) with \<open>m\<close> of 53 bits:
  \<open>quot_exponent p q\<close> is the binary exponent of the quotient, the largest \<open>e\<close> with
  \<open>2 ^ e \<le> p / q\<close>, and \<open>k = 52 - e\<close> scales the quotient to 53 bits before it is
  rounded. (Quotients below \<open>2 ^ - 1022\<close> have fewer bits in a double; their ceiling
  and floor are the same as here.)
\<close>

definition quot_exponent :: "int \<Rightarrow> int \<Rightarrow> int" where
  "quot_exponent p q =
     (let lp = bit_length (nat p); lq = bit_length (nat q) in
        if q * 2 ^ lp \<le> p * 2 ^ lq then int lp - int lq else int lp - int lq - 1)"

definition fl_quot :: "int \<Rightarrow> int \<Rightarrow> int \<times> int" where
  "fl_quot p q =
     (let k = 52 - quot_exponent p q in
        (if 0 \<le> k then rne (p * 2 ^ nat k) q else rne p (q * 2 ^ nat (- k)), k))"

fun ceil_scaled :: "int \<times> int \<Rightarrow> int" where
  "ceil_scaled (m, k) = (if 0 \<le> k then - ((- m) div 2 ^ nat k) else m * 2 ^ nat (- k))"

fun floor_scaled :: "int \<times> int \<Rightarrow> int" where
  "floor_scaled (m, k) = (if 0 \<le> k then m div 2 ^ nat k else m * 2 ^ nat (- k))"

text \<open>
  \<open>Math.ceil(a / d)\<close> for an integer \<open>a\<close>: the quotient is rounded to a double first,
  and the ceiling is taken of that double. A division by zero gives an infinity or
  \<open>NaN\<close>, a division by an infinity gives zero.
\<close>

definition js_ceil_div :: "int \<Rightarrow> jsnum \<Rightarrow> jsnum" where
  "js_ceil_div a d =
     (case d of
        NaN \<Rightarrow> NaN
      | PosInfinity \<Rightarrow> Finite 0
      | NegInfinity \<Rightarrow> Finite 0
      | Finite b \<Rightarrow>
          if b = 0 then (if 0 < a then PosInfinity else if a < 0 then NegInfinity else NaN)
          else if a = 0 then Finite 0
          else if (0 < a) = (0 < b) then Finite (ceil_scaled (fl_quot \<bar>a\<bar> \<bar>b\<bar>))
          else Finite (- floor_scaled (fl_quot \<bar>a\<bar> \<bar>b\<bar>)))"

section \<open>Chunk planner: \<open>MultiTransport._decompose\<close>\<close>

definition kPartSize :: int where
  "kPartSize = 20 * 1024 * 1024"

record part =
  partNumber :: nat
  partSize :: jsnum
  start :: jsnum

text \<open>
  The \<open>while (leftSize > 0)\<close> loop of \<open>_decompose\<close>, with the loop variables
  \<open>remainParts\<close>, \<open>leftSize\<close>, \<open>offset\<close> and \<open>partNumber\<close> as arguments
  (the primed names are the local variables that share a name with a field of a part).
  Nothing in the loop itself bounds the number of iterations (a part size that is
  not positive, or one that rounding makes vanish against \<open>leftSize\<close>, would never
  shrink \<open>leftSize\<close>), so not returning is the value \<open>None\<close>.
\<close>

partial_function (option) decompose_while ::
  "jsnum \<Rightarrow> part list \<Rightarrow> jsnum \<Rightarrow> jsnum \<Rightarrow> nat \<Rightarrow> part list option" where
  "decompose_while averagePartSize remainParts leftSize offset partNumber' =
     (if js_gt leftSize (Finite 0) then
        (let partSize' = js_min leftSize averagePartSize in
           decompose_while averagePartSize
             (remainParts @ [\<lparr>partNumber = partNumber', partSize = partSize', start = offset\<rparr>])
             (js_sub leftSize partSize') (js_add offset partSize') (partNumber' + 1))
      else Some remainParts)"

text \<open>
  \<open>_decompose(orderedParts, maxParts, uploadSize, totalSize)\<close>. Of \<open>orderedParts\<close>
  only the length is read. The three numbers are doubles that hold natural numbers
  (a file size from \<open>fs.statSync\<close>, a sum of part sizes and a part limit reported by
  the service); a natural number that no double holds is no input of the program.
\<close>

definition MultiTransport_decompose :: "'a list \<Rightarrow> nat \<Rightarrow> nat \<Rightarrow> nat \<Rightarrow> part list option" where
  "MultiTransport_decompose orderedParts maxParts uploadSize totalSize =
     (let minPartSize =
            js_ceil_div (int totalSize)
              (js_sub (Finite (int maxParts)) (Finite (int (length orderedParts))));
          averagePartSize = js_max (Finite kPartSize) minPartSize
      in decompose_while averagePartSize []
           (js_sub (Finite (int totalSize)) (Finite (int uploadSize)))
           (Finite (int uploadSize))
           (length orderedParts + 1))"

text \<open>
  The plan the loop produces for a finite, positive part size when no operation rounds,
  as a total function: the recursion stops because \<open>leftSize\<close> shrinks by a positive
  amount.
\<close>

function plan :: "int \<Rightarrow> int \<Rightarrow> int \<Rightarrow> nat \<Rightarrow> part list" where
  "plan a l off n =
     (if 0 < l \<and> 0 < a then
        \<lparr>partNumber = n, partSize = Finite (min l a), start = Finite off\<rparr>
          # plan a (l - min l a) (off + min l a) (n + 1)
      else [])"
  by pat_completeness auto
termination
  by (relation "measure (\<lambda>(a, l, off, n). nat l)") auto

declare plan.simps [simp del]

text \<open>
  The sum of the sizes of a plan and the contiguity of its offsets are meant exactly,
  as sums of integers: \<open>exact_add\<close> adds without rounding.
\<close>

fun exact_add :: "jsnum \<Rightarrow> jsnum \<Rightarrow> jsnum" where
  "exact_add (Finite a) (Finite b) = Finite (a + b)"
| "exact_add a b = js_add a b"

fun exact_sum :: "jsnum list \<Rightarrow> jsnum" where
  "exact_sum [] = Finite 0"
| "exact_sum (x # xs) = exact_add x (exact_sum xs)"

fun contiguous_from :: "jsnum \<Rightarrow> part list \<Rightarrow> bool" where
  "contiguous_from off [] = True"
| "contiguous_from off (p # ps) =
     (start p = off \<and> contiguous_from (exact_add off (partSize p)) ps)"

section \<open>Download transport: class \<open>Transport\<close>\<close>

text \<open>
  The states of a transfer task (\<open>TransportStatus\<close> of the headers module, of which the
  code names \<open>UnStarted\<close>, \<open>Running\<close>, \<open>Paused\<close>, \<open>Finished\<close> and \<open>Error\<close>).
\<close>

datatype TransportStatus = UnStarted | Running | Paused | Finished | Error

text \<open>
  The values that reach \<open>_checkError\<close>: a string; an instance of \<open>Error\<close> with its
  message, its stack trace and, for file system errors, a \<open>code\<close>; or another object,
  of which the code reads \<open>message\<close> (kept when it is a string), \<open>stack\<close>,
  \<open>code\<close> and \<open>status_code\<close>.
\<close>

datatype js_err =
    ErrString string
  | ErrError string string "string option"
  | ErrObject "string option" "string option" "string option" "int option"

fun err_code :: "js_err \<Rightarrow> string option" where
  "err_code (ErrString s) = None"
| "err_code (ErrError m st c) = c"
| "err_code (ErrObject m st c sc) = c"

text \<open>A number inside a template literal: its decimal digits.\<close>

fun digits10 :: "nat \<Rightarrow> string" where
  "digits10 n =
     (if n < 10 then [''0123456789'' ! n]
      else digits10 (n div 10) @ [''0123456789'' ! (n mod 10)])"

declare digits10.simps [simp del]

definition js_show_int :: "int \<Rightarrow> string" where
  "js_show_int i = (if i < 0 then CHR ''-'' # digits10 (nat (- i)) else digits10 (nat i))"

text \<open>
  The two message literals of the class are Chinese text; they are given here as their
  UTF-8 bytes: "unknown error" and "network connection timed out".
\<close>

definition msg_unknown :: string where
  "msg_unknown = [CHR 0xE6, CHR 0x9C, CHR 0xAA, CHR 0xE7, CHR 0x9F, CHR 0xA5,
                  CHR 0xE9, CHR 0x94, CHR 0x99, CHR 0xE8, CHR 0xAF, CHR 0xAF]"

definition msg_timeout :: string where
  "msg_timeout = [CHR 0xE7, CHR 0xBD, CHR 0x91, CHR 0xE7, CHR 0xBB, CHR 0x9C,
                  CHR 0xE8, CHR 0xBF, CHR 0x9E, CHR 0xE6, CHR 0x8E, CHR 0xA5,
                  CHR 0xE8, CHR 0xB6, CHR 0x85, CHR 0xE6, CHR 0x97, CHR 0xB6]"

text \<open>
  What a method does to the outside, in order: the events it emits (with their payload)
  and the calls it makes to the file system, the storage client and its streams.
  The \<open>Range\<close> header is kept as its two numbers.
\<close>

datatype range_header = NoRange | Bytes jsnum jsnum

datatype event =
    EvFinish string string
  | EvError string string
  | EvPause string
  | EvProgress string jsnum

datatype effect =
    Emit event
  | MkdirpParent string
  | GetObjectMetadata string string
  | CreateWriteStream string string
  | SendGet string string range_header
  | StreamEnd
  | CreateReadStream string jsnum jsnum
  | SendPut string string nat "string option" jsnum
  | StreamAbort
  | Throws string

record write_stream =
  ws_path :: string
  ws_flags :: string

text \<open>
  The fields of a \<open>Transport\<close> (without the leading underscore of the source, and
  without the storage client). \<open>aliveTimer\<close> is the state of the debounced
  \<open>_checkAlive\<close>: the time, in milliseconds, at which its pending timer expires.
\<close>

record transport =
  uuid :: string
  objectKey :: string
  localPath :: string
  bucketName :: string
  state :: TransportStatus
  outputStream :: "write_stream option"
  aliveTimer :: "nat option"

record config =
  cfg_uuid :: string
  cfg_bucketName :: string
  cfg_objectKey :: string
  cfg_localPath :: string

definition Transport_new :: "config \<Rightarrow> transport" where
  "Transport_new cfg =
     \<lparr>uuid = cfg_uuid cfg, objectKey = cfg_objectKey cfg, localPath = cfg_localPath cfg,
      bucketName = cfg_bucketName cfg, state = UnStarted, outputStream = None,
      aliveTimer = None\<rparr>"

definition Transport_isRunning :: "'a transport_scheme \<Rightarrow> bool" where
  "Transport_isRunning t = (state t = Running)"

definition Transport_isUnStarted :: "'a transport_scheme \<Rightarrow> bool" where
  "Transport_isUnStarted t = (state t = UnStarted)"

definition Transport_checkFinish ::
  "'a transport_scheme \<Rightarrow> 'a transport_scheme \<times> effect list" where
  "Transport_checkFinish t =
     (if \<not> Transport_isRunning t then (t, [])
      else (t\<lparr>state := Finished\<rparr>, [Emit (EvFinish (uuid t) (objectKey t))]))"

text \<open>
  \<open>err.message + err.stack\<close> of an object that is no \<open>Error\<close> and has no \<open>stack\<close>
  appends the text \<open>undefined\<close>.
\<close>

fun error_text :: "js_err \<Rightarrow> string" where
  "error_text (ErrString s) = s"
| "error_text (ErrError m st c) = m @ st"
| "error_text (ErrObject (Some m) st c sc) =
     m @ (case st of None \<Rightarrow> ''undefined'' | Some s \<Rightarrow> s)"
| "error_text (ErrObject None st c (Some sc)) = ''Server code = '' @ js_show_int sc"
| "error_text (ErrObject None st c None) = msg_unknown"

definition Transport_checkError ::
  "js_err \<Rightarrow> 'a transport_scheme \<Rightarrow> 'a transport_scheme \<times> effect list" where
  "Transport_checkError err t =
     (if \<not> Transport_isRunning t then (t, [])
      else (t\<lparr>state := Error\<rparr>, [Emit (EvError (uuid t) (error_text err))]))"

text \<open>
  \<open>_onTimeout\<close>. The stack trace of the \<open>Error\<close> it creates comes from the runtime and
  is a parameter.
\<close>

definition Transport_onTimeout ::
  "string \<Rightarrow> 'a transport_scheme \<Rightarrow> 'a transport_scheme \<times> effect list" where
  "Transport_onTimeout stack t =
     (if outputStream t \<noteq> None \<and> Transport_isRunning t then
        (let (t', es) = Transport_checkError (ErrError msg_timeout stack None) t
         in (t', es @ [StreamEnd]))
      else (t, []))"

text \<open>
  Modelled from the spec: \<open>debounce\<close> of lodash is not part of the repository. Section 4.4:
  "any progress event resets the timer; if no progress event arrives within the window,
  the watchdog fires". A call of the debounced \<open>_checkAlive\<close> at time \<open>now\<close> sets the
  timer to expire \<open>10e3\<close> milliseconds later, replacing a pending one;
  \<open>Transport_aliveTimer_fires\<close> is the timer callback of the runtime, which runs the
  debounced function when the pending timer has expired.
\<close>

definition Transport_checkAlive :: "nat \<Rightarrow> 'a transport_scheme \<Rightarrow> 'a transport_scheme" where
  "Transport_checkAlive now t = t\<lparr>aliveTimer := Some (now + 10000)\<rparr>"

definition Transport_aliveTimer_fires ::
  "nat \<Rightarrow> string \<Rightarrow> 'a transport_scheme \<Rightarrow> 'a transport_scheme \<times> effect list" where
  "Transport_aliveTimer_fires now stack t =
     (case aliveTimer t of
        None \<Rightarrow> (t, [])
      | Some deadline \<Rightarrow>
          if deadline \<le> now then Transport_onTimeout stack (t\<lparr>aliveTimer := None\<rparr>)
          else (t, []))"

text \<open>A number is truthy unless it is zero or \<open>NaN\<close>.\<close>

definition js_truthy :: "jsnum \<Rightarrow> bool" where
  "js_truthy x = (x \<noteq> Finite 0 \<and> x \<noteq> NaN)"

text \<open>
  \<open>resume(begin = 0, end = 0)\<close> opens the write stream and sends the request; what it
  registers on the stream and on the request are the four handlers that follow it.
  The throttled \<open>rate\<close> notification of the \<open>drain\<close> handler, a floating-point quotient
  of bytes and elapsed time, is left out.
\<close>

definition Transport_resume ::
  "jsnum \<Rightarrow> jsnum \<Rightarrow> 'a transport_scheme \<Rightarrow> 'a transport_scheme \<times> effect list" where
  "Transport_resume rbegin rend t =
     (let flags = (if js_truthy rbegin then ''a'' else ''w'') in
        (t\<lparr>outputStream := Some \<lparr>ws_path = localPath t, ws_flags = flags\<rparr>\<rparr>,
         [CreateWriteStream (localPath t) flags,
          SendGet (bucketName t) (objectKey t)
            (if js_truthy rbegin then Bytes rbegin rend else NoRange)]))"

definition Transport_on_drain ::
  "nat \<Rightarrow> 'a transport_scheme \<Rightarrow> 'a transport_scheme \<times> effect list" where
  "Transport_on_drain now t = (Transport_checkAlive now t, [])"

definition Transport_on_stream_error ::
  "js_err \<Rightarrow> 'a transport_scheme \<Rightarrow> 'a transport_scheme \<times> effect list" where
  "Transport_on_stream_error err t =
     (if err_code err = Some ''EACCES'' then Transport_checkError err t else (t, []))"

definition Transport_on_request_fulfilled ::
  "'a transport_scheme \<Rightarrow> 'a transport_scheme \<times> effect list" where
  "Transport_on_request_fulfilled t = Transport_checkFinish t"

definition Transport_on_request_rejected ::
  "js_err \<Rightarrow> 'a transport_scheme \<Rightarrow> 'a transport_scheme \<times> effect list" where
  "Transport_on_request_rejected err t = Transport_checkError err t"

definition Transport_pause :: "'a transport_scheme \<Rightarrow> 'a transport_scheme \<times> effect list" where
  "Transport_pause t =
     (t\<lparr>state := Paused\<rparr>,
      (if outputStream t \<noteq> None then [StreamEnd] else []) @ [Emit (EvPause (uuid t))])"

text \<open>
  \<open>start()\<close> reads the file system and, when the local file exists, asks for the
  metadata of the object and decides in the callback of that request. What the file
  system answers is the argument \<open>local_file\<close>: the file is absent (and
  \<open>mkdirp.sync\<close> returns or throws), or it is present with its size and its
  modification time \<open>mtime.getTime()\<close>. What \<open>_fetchMetadata\<close> answers is a
  \<open>metadata\<close> record (a header that is missing or no number gives \<open>NaN\<close>) or a
  rejection.
\<close>

datatype local_file = Absent "js_err option" | Present int int

record metadata =
  xMetaSize :: jsnum
  xMetaModifiedTime :: jsnum

definition Transport_start_sync ::
  "local_file \<Rightarrow> 'a transport_scheme \<Rightarrow> 'a transport_scheme \<times> effect list" where
  "Transport_start_sync file t =
     (let t1 = t\<lparr>state := Running\<rparr> in
        case file of
          Absent None \<Rightarrow>
            (let (t2, es) = Transport_resume (Finite 0) (Finite 0) t1
             in (t2, MkdirpParent (localPath t) # es))
        | Absent (Some ex) \<Rightarrow>
            (let (t2, es) = Transport_checkError ex t1
             in (t2, MkdirpParent (localPath t) # es))
        | Present size' mtime \<Rightarrow> (t1, [GetObjectMetadata (bucketName t) (objectKey t)]))"

definition Transport_start_on_metadata ::
  "int \<Rightarrow> int \<Rightarrow> metadata \<Rightarrow> 'a transport_scheme \<Rightarrow> 'a transport_scheme \<times> effect list" where
  "Transport_start_on_metadata size' mtime res t =
     (if js_ge (Finite size') (xMetaSize res) \<or> js_le (Finite mtime) (xMetaModifiedTime res)
      then Transport_resume (Finite 0) (Finite 0) t
      else if js_lt (Finite size') (xMetaSize res)
      then Transport_resume (Finite size') (xMetaSize res) t
      else Transport_checkFinish t)"

definition Transport_start_on_metadata_error ::
  "js_err \<Rightarrow> 'a transport_scheme \<Rightarrow> 'a transport_scheme \<times> effect list" where
  "Transport_start_on_metadata_error err t = Transport_checkError err t"

text \<open>
  A whole \<open>start()\<close> with nothing else happening to the task between the call and the
  answer of the metadata request.
\<close>

datatype metadata_reply = Fulfilled metadata | Rejected js_err

definition Transport_start ::
  "local_file \<Rightarrow> metadata_reply \<Rightarrow> 'a transport_scheme \<Rightarrow> 'a transport_scheme \<times> effect list" where
  "Transport_start file reply t =
     (let (t1, es1) = Transport_start_sync file t in
        case file of
          Absent ex \<Rightarrow> (t1, es1)
        | Present size' mtime \<Rightarrow>
            (let (t2, es2) =
               (case reply of
                  Fulfilled res \<Rightarrow> Transport_start_on_metadata size' mtime res t1
                | Rejected err \<Rightarrow> Transport_start_on_metadata_error err t1)
             in (t2, es1 @ es2)))"

text \<open>
  What can happen to a task after \<open>start()\<close> has returned: the callbacks the class
  has registered on the metadata request, on the download request, on the write stream
  and on the timer, and a call of \<open>pause()\<close>.
\<close>

datatype callback =
    MetadataFulfilled int int metadata
  | MetadataRejected js_err
  | RequestFulfilled
  | RequestRejected js_err
  | StreamDrain nat
  | StreamError js_err
  | AliveTimerFires nat string
  | PauseCalled

fun Transport_callback ::
  "callback \<Rightarrow> 'a transport_scheme \<Rightarrow> 'a transport_scheme \<times> effect list" where
  "Transport_callback (MetadataFulfilled size' mtime res) t =
     Transport_start_on_metadata size' mtime res t"
| "Transport_callback (MetadataRejected err) t = Transport_start_on_metadata_error err t"
| "Transport_callback RequestFulfilled t = Transport_on_request_fulfilled t"
| "Transport_callback (RequestRejected err) t = Transport_on_request_rejected err t"
| "Transport_callback (StreamDrain now) t = Transport_on_drain now t"
| "Transport_callback (StreamError err) t = Transport_on_stream_error err t"
| "Transport_callback (AliveTimerFires now stack) t = Transport_aliveTimer_fires now stack t"
| "Transport_callback PauseCalled t = Transport_pause t"

text \<open>The callbacks of a list run in order; the effects accumulate.\<close>

fun Transport_callbacks ::
  "callback list \<Rightarrow> 'a transport_scheme \<Rightarrow> 'a transport_scheme \<times> effect list" where
  "Transport_callbacks [] t = (t, [])"
| "Transport_callbacks (c # cs) t =
     (let (t1, es1) = Transport_callback c t; (t2, es2) = Transport_callbacks cs t1
      in (t2, es1 @ es2))"

fun is_terminal :: "effect \<Rightarrow> bool" where
  "is_terminal (Emit (EvFinish u k)) = True"
| "is_terminal (Emit (EvError u e)) = True"
| "is_terminal _ = False"

section \<open>The task queue of the \<open>async\<close> library\<close>

text \<open>
  Modelled from the spec: \<open>queue\<close> of the async library is not part of the repository.
  Section 4.5: "a FIFO queue admitting at most K (default 5) concurrently-running tasks",
  "\<open>resumeItem\<close> re-admits a paused Transport at the front of the queue"; section 4.2:
  "on first part failure, the queue is drained". A queue holds the waiting tasks in
  order and the running ones, each with the callback the worker was given for it
  (callbacks are numbered in the order of the worker calls). \<open>q_take\<close> is one turn of
  the loop that starts workers: it takes the first waiting task if fewer than
  \<open>concurrency\<close> tasks are running. \<open>q_done\<close> is a call of a worker's callback; the
  library raises an error when a callback is called a second time.
\<close>

record 'a async_queue =
  q_tasks :: "'a list"
  q_workers :: "(nat \<times> 'a) list"
  q_concurrency :: nat
  q_started :: nat

definition q_new :: "nat \<Rightarrow> 'a async_queue" where
  "q_new c = \<lparr>q_tasks = [], q_workers = [], q_concurrency = c, q_started = 0\<rparr>"

definition q_push :: "'a list \<Rightarrow> 'a async_queue \<Rightarrow> 'a async_queue" where
  "q_push xs q = q\<lparr>q_tasks := q_tasks q @ xs\<rparr>"

definition q_unshift :: "'a \<Rightarrow> 'a async_queue \<Rightarrow> 'a async_queue" where
  "q_unshift x q = q\<lparr>q_tasks := x # q_tasks q\<rparr>"

definition q_kill :: "'a async_queue \<Rightarrow> 'a async_queue" where
  "q_kill q = q\<lparr>q_tasks := []\<rparr>"

definition q_idle :: "'a async_queue \<Rightarrow> bool" where
  "q_idle q = (q_tasks q = [] \<and> q_workers q = [])"

definition q_take :: "'a async_queue \<Rightarrow> (nat \<times> 'a \<times> 'a async_queue) option" where
  "q_take q =
     (case q_tasks q of
        [] \<Rightarrow> None
      | x # xs \<Rightarrow>
          if length (q_workers q) < q_concurrency q then
            Some (q_started q, x,
                  q\<lparr>q_tasks := xs, q_workers := q_workers q @ [(q_started q, x)],
                    q_started := q_started q + 1\<rparr>)
          else None)"

definition q_done :: "nat \<Rightarrow> 'a async_queue \<Rightarrow> 'a async_queue option" where
  "q_done cb q =
     (if cb \<in> fst ` set (q_workers q)
      then Some (q\<lparr>q_workers := filter (\<lambda>w. fst w \<noteq> cb) (q_workers q)\<rparr>)
      else None)"

section \<open>Upload transport: class \<open>MultiTransport\<close>\<close>

text \<open>
  Modelled from the spec: \<open>MultiTransport\<close> extends the \<open>Transport\<close> of its own
  directory (\<open>./transport\<close> of the uploader), which is not among the sources. The
  fields that \<open>MultiTransport\<close> reads from it (\<open>_uuid\<close>, \<open>_objectKey\<close>,
  \<open>_localPath\<close>, \<open>_bucketName\<close>, \<open>_state\<close>) and its state machine are taken from
  the \<open>Transport\<close> of the downloader; section 2 names a "shared base-transport state
  machine", and section 4.3 gives the download transport "states identical" to those of
  the upload transport. \<open>resume_promise\<close> is the state of the promise that \<open>resume\<close>
  returns.
\<close>

record read_stream =
  rs_start :: jsnum
  rs_end :: jsnum

datatype promise_state = Pending | Resolved | RejectedWith js_err

record multi_transport = transport +
  uploadId :: "string option"
  uploadedSize :: jsnum
  stream :: "read_stream option"
  part_queue :: "part async_queue"
  resume_promise :: promise_state

text \<open>
  \<open>_invoke(part, done)\<close> up to the request; the two callbacks of the request follow
  in \<open>MultiTransport_put_fulfilled\<close> and \<open>MultiTransport_put_rejected\<close>.
\<close>

definition MultiTransport_invoke ::
  "part \<Rightarrow> multi_transport \<Rightarrow> multi_transport \<times> effect list" where
  "MultiTransport_invoke p m =
     (let rend = js_sub (js_add (start p) (partSize p)) (Finite 1) in
        (m\<lparr>stream := Some \<lparr>rs_start = start p, rs_end = rend\<rparr>\<rparr>,
         [CreateReadStream (localPath m) (start p) rend,
          SendPut (bucketName m) (objectKey m) (partNumber p) (uploadId m) (partSize p)]))"

text \<open>The loop of the queue that starts workers, here on \<open>_invoke\<close>.\<close>

function MultiTransport_queue_process ::
  "multi_transport \<Rightarrow> multi_transport \<times> effect list" where
  "MultiTransport_queue_process m =
     (case q_take (part_queue m) of
        None \<Rightarrow> (m, [])
      | Some (cb, p, q) \<Rightarrow>
          (let (m1, es1) = MultiTransport_invoke p (m\<lparr>part_queue := q\<rparr>);
               (m2, es2) = MultiTransport_queue_process m1
           in (m2, es1 @ es2)))"
  by pat_completeness auto
termination
  by (relation "measure (\<lambda>m. length (q_tasks (part_queue m)))")
     (auto simp: q_take_def MultiTransport_invoke_def Let_def split: list.splits if_splits)

declare MultiTransport_queue_process.simps [simp del]

text \<open>
  \<open>resume(remainParts)\<close> creates the queue with concurrency 1 and pushes the parts;
  the queue starts its workers afterwards (\<open>QueueProcess\<close> below). Pushing no part
  to an idle queue calls \<open>drain\<close>, which resolves the promise.
\<close>

definition MultiTransport_resume :: "part list \<Rightarrow> multi_transport \<Rightarrow> multi_transport" where
  "MultiTransport_resume remainParts m =
     m\<lparr>part_queue := q_push remainParts (q_new 1),
       resume_promise := (if remainParts = [] then Resolved else Pending)\<rparr>"

text \<open>
  The request of the running part with callback \<open>cb\<close> succeeds:
  \<open>this._uploadedSize += partSize; done()\<close>. The queue then calls \<open>drain\<close> if it is idle
  and starts the next worker.
\<close>

definition MultiTransport_put_fulfilled ::
  "nat \<Rightarrow> multi_transport \<Rightarrow> multi_transport \<times> effect list" where
  "MultiTransport_put_fulfilled cb m =
     (case map_of (q_workers (part_queue m)) cb of
        None \<Rightarrow> (m, [])
      | Some p \<Rightarrow>
          (case q_done cb (part_queue m) of
             None \<Rightarrow> (m, [])
           | Some q \<Rightarrow>
               (let m1 = m\<lparr>uploadedSize := js_add (uploadedSize m) (partSize p),
                           part_queue := q\<rparr>;
                    m2 = (if q_idle q \<and> resume_promise m = Pending
                          then m1\<lparr>resume_promise := Resolved\<rparr> else m1)
                in MultiTransport_queue_process m2)))"

text \<open>
  The request fails: \<open>done(err)\<close>, and the queue calls its \<open>error\<close> handler, which
  kills the queue and rejects the promise.
\<close>

definition MultiTransport_put_rejected ::
  "nat \<Rightarrow> js_err \<Rightarrow> multi_transport \<Rightarrow> multi_transport \<times> effect list" where
  "MultiTransport_put_rejected cb err m =
     (case q_done cb (part_queue m) of
        None \<Rightarrow> (m, [])
      | Some q \<Rightarrow>
          MultiTransport_queue_process
            (m\<lparr>part_queue := q_kill q,
               resume_promise :=
                 (if resume_promise m = Pending then RejectedWith err else resume_promise m)\<rparr>))"

text \<open>
  The \<open>progress\<close> handler of the read stream calls the debounced \<open>_checkAlive\<close> of
  this class (\<open>debounce\<close> modelled as for the download transport) and emits
  \<open>progress\<close> (the rate it passes on unchanged is left out); the debounced function of
  this class emits \<open>abort\<close> on the current read stream, and throws when there is none.
\<close>

definition MultiTransport_checkAlive :: "nat \<Rightarrow> multi_transport \<Rightarrow> multi_transport" where
  "MultiTransport_checkAlive now m = m\<lparr>aliveTimer := Some (now + 10000)\<rparr>"

definition MultiTransport_on_progress ::
  "nat \<Rightarrow> jsnum \<Rightarrow> multi_transport \<Rightarrow> multi_transport \<times> effect list" where
  "MultiTransport_on_progress now bytesWritten m =
     (MultiTransport_checkAlive now m,
      [Emit (EvProgress (uuid m) (js_add (uploadedSize m) bytesWritten))])"

definition MultiTransport_aliveTimer_fires ::
  "nat \<Rightarrow> multi_transport \<Rightarrow> multi_transport \<times> effect list" where
  "MultiTransport_aliveTimer_fires now m =
     (case aliveTimer m of
        None \<Rightarrow> (m, [])
      | Some deadline \<Rightarrow>
          if deadline \<le> now then
            (m\<lparr>aliveTimer := None\<rparr>,
             [if stream m \<noteq> None then StreamAbort else Throws ''TypeError''])
          else (m, []))"


datatype upload_event =
    QueueProcess
  | PutFulfilled nat
  | PutRejected nat js_err
  | StreamProgress nat jsnum
  | UploadTimerFires nat

fun MultiTransport_event ::
  "upload_event \<Rightarrow> multi_transport \<Rightarrow> multi_transport \<times> effect list" where
  "MultiTransport_event QueueProcess m = MultiTransport_queue_process m"
| "MultiTransport_event (PutFulfilled cb) m = MultiTransport_put_fulfilled cb m"
| "MultiTransport_event (PutRejected cb err) m = MultiTransport_put_rejected cb err m"
| "MultiTransport_event (StreamProgress now n) m = MultiTransport_on_progress now n m"
| "MultiTransport_event (UploadTimerFires now) m = MultiTransport_aliveTimer_fires now m"

fun MultiTransport_events ::
  "upload_event list \<Rightarrow> multi_transport \<Rightarrow> multi_transport \<times> effect list" where
  "MultiTransport_events [] m = (m, [])"
| "MultiTransport_events (e # evs) m =
     (let (m1, es1) = MultiTransport_event e m; (m2, es2) = MultiTransport_events evs m1
      in (m2, es1 @ es2))"

text \<open>The part numbers of the requests sent, in order.\<close>

fun puts :: "effect list \<Rightarrow> nat list" where
  "puts [] = []"
| "puts (SendPut b k n u s # es) = n # puts es"
| "puts (e # es) = puts es"

section \<open>Task dispatcher: class \<open>Dispatcher\<close>\<close>

text \<open>
  The Dispatcher keeps transport objects in its cache and in its queue, and the
  listeners it registers stay on an object; the objects therefore live in a store,
  \<open>objects\<close>, and cache and queue hold references. With each object the store keeps
  the callbacks of the queue that \<open>_invoke\<close> has wired to its \<open>pause\<close>, \<open>finish\<close>
  and \<open>error\<close> events, oldest first. \<open>sent\<close> is what went out through
  \<open>process.send\<close>, \<open>io\<close> what the transports did to streams and network. The type
  parameter is the extension of the transport record: the objects of the Dispatcher of
  the sources are download transports.
\<close>

datatype command = NotifyStart | NotifyPaused | NotifyFinished | NotifyError | NotifyRate

datatype msg = MsgEvent event | MsgUuid string

text \<open>
  The cache is a plain object: \<open>uuid in this._transportCache\<close> also holds for the
  property names every object inherits, and \<open>this._transportCache[uuid]\<close> is then the
  inherited value, which is no transport.
\<close>

datatype cached = Object nat | Inherited string

definition object_prototype_keys :: "string list" where
  "object_prototype_keys =
     [''constructor'', ''__defineGetter__'', ''__defineSetter__'', ''hasOwnProperty'',
      ''__lookupGetter__'', ''__lookupSetter__'', ''isPrototypeOf'',
      ''propertyIsEnumerable'', ''toString'', ''valueOf'', ''__proto__'',
      ''toLocaleString'']"

record 'a tobject =
  obj :: "'a transport_scheme"
  listeners :: "nat list"

record 'a dispatcher =
  transportCache :: "string \<rightharpoonup> nat"
  objects :: "nat \<rightharpoonup> 'a tobject"
  allocated :: nat
  task_queue :: "cached async_queue"
  sent :: "(command \<times> msg) list"
  io :: "(nat \<times> effect) list"

definition cache_get :: "'a dispatcher \<Rightarrow> string \<Rightarrow> cached option" where
  "cache_get d u =
     (case transportCache d u of
        Some r \<Rightarrow> Some (Object r)
      | None \<Rightarrow> if u \<in> set object_prototype_keys then Some (Inherited u) else None)"

text \<open>
  A call returns, or throws with the state it has reached (a listener that throws
  ends \<open>emit\<close>, and the exception leaves the method that emitted).
\<close>

datatype 'a outcome = Returned 'a | Threw string 'a

fun reached :: "'a outcome \<Rightarrow> 'a" where
  "reached (Returned d) = d"
| "reached (Threw e d) = d"

definition Dispatcher_new :: "'a dispatcher" where
  "Dispatcher_new =
     \<lparr>transportCache = Map.empty, objects = Map.empty, allocated = 0,
      task_queue = q_new 5, sent = [], io = []\<rparr>"

definition Dispatcher_send :: "command \<Rightarrow> msg \<Rightarrow> 'a dispatcher \<Rightarrow> 'a dispatcher" where
  "Dispatcher_send c m d = d\<lparr>sent := sent d @ [(c, m)]\<rparr>"

text \<open>\<open>done()\<close>, the callback \<open>cb\<close> of the queue.\<close>

definition Dispatcher_done :: "nat \<Rightarrow> 'a dispatcher \<Rightarrow> 'a dispatcher outcome" where
  "Dispatcher_done cb d =
     (case q_done cb (task_queue d) of
        None \<Rightarrow> Threw ''Callback was already called.'' d
      | Some q \<Rightarrow> Returned (d\<lparr>task_queue := q\<rparr>))"

text \<open>
  The listeners that one call \<open>_invoke(transport, done)\<close> registers, as a function of
  the event. (No \<open>rate\<close> event is in the model, and \<open>progress\<close> has no listener.)
\<close>

fun Dispatcher_listener :: "nat \<Rightarrow> event \<Rightarrow> 'a dispatcher \<Rightarrow> 'a dispatcher outcome" where
  "Dispatcher_listener cb (EvPause u) d =
     Dispatcher_done cb (Dispatcher_send NotifyPaused (MsgEvent (EvPause u)) d)"
| "Dispatcher_listener cb (EvFinish u k) d =
     (let d1 = Dispatcher_send NotifyFinished (MsgEvent (EvFinish u k)) d;
          d2 = d1\<lparr>transportCache := (transportCache d1)(u := None)\<rparr>
      in Dispatcher_done cb d2)"
| "Dispatcher_listener cb (EvError u e) d =
     Dispatcher_done cb (Dispatcher_send NotifyError (MsgEvent (EvError u e)) d)"
| "Dispatcher_listener cb (EvProgress u n) d = Returned d"

text \<open>
  \<open>emit\<close> of the event emitter of Node: the listeners run in the order of their
  registration, and an \<open>error\<close> event that has no listener is thrown.
\<close>

fun emit_to :: "nat list \<Rightarrow> event \<Rightarrow> 'a dispatcher \<Rightarrow> 'a dispatcher outcome" where
  "emit_to [] ev d = Returned d"
| "emit_to (cb # cbs) ev d =
     (case Dispatcher_listener cb ev d of
        Returned d1 \<Rightarrow> emit_to cbs ev d1
      | Threw e d1 \<Rightarrow> Threw e d1)"

fun is_error_event :: "event \<Rightarrow> bool" where
  "is_error_event (EvError u e) = True"
| "is_error_event _ = False"

definition emit :: "nat \<Rightarrow> event \<Rightarrow> 'a dispatcher \<Rightarrow> 'a dispatcher outcome" where
  "emit r ev d =
     (case objects d r of
        None \<Rightarrow> Returned d
      | Some ob \<Rightarrow>
          if listeners ob = [] \<and> is_error_event ev then Threw ''Unhandled error.'' d
          else emit_to (listeners ob) ev d)"

text \<open>The effects of a method of object \<open>r\<close> take place in order.\<close>

fun perform :: "nat \<Rightarrow> effect list \<Rightarrow> 'a dispatcher \<Rightarrow> 'a dispatcher outcome" where
  "perform r [] d = Returned d"
| "perform r (Emit ev # es) d =
     (case emit r ev d of
        Returned d1 \<Rightarrow> perform r es d1
      | Threw e d1 \<Rightarrow> Threw e d1)"
| "perform r (e # es) d = perform r es (d\<lparr>io := io d @ [(r, e)]\<rparr>)"

definition call ::
  "nat \<Rightarrow> ('a transport_scheme \<Rightarrow> 'a transport_scheme \<times> effect list) \<Rightarrow> 'a dispatcher
     \<Rightarrow> 'a dispatcher outcome" where
  "call r method d =
     (case objects d r of
        None \<Rightarrow> Returned d
      | Some ob \<Rightarrow>
          (let (t, es) = method (obj ob)
           in perform r es (d\<lparr>objects := (objects d)(r \<mapsto> ob\<lparr>obj := t\<rparr>)\<rparr>)))"

text \<open>
  Modelled from the spec: \<open>isPaused\<close>, which \<open>_invoke\<close> calls, is not defined in the
  \<open>Transport\<close> class of the sources (it has \<open>isRunning\<close> and \<open>isUnStarted\<close>).
  Section 4.5: \<open>pause()\<close> "marks Paused".
\<close>

definition Transport_isPaused :: "'a transport_scheme \<Rightarrow> bool" where
  "Transport_isPaused t = (state t = Paused)"

text \<open>
  \<open>_invoke(transport, done)\<close> for the object \<open>r\<close> and the callback \<open>cb\<close>; \<open>file\<close> is
  what the file system answers if \<open>start()\<close> is called.
\<close>

definition Dispatcher_invoke ::
  "local_file \<Rightarrow> nat \<Rightarrow> nat \<Rightarrow> 'a dispatcher \<Rightarrow> 'a dispatcher outcome" where
  "Dispatcher_invoke file r cb d =
     (case objects d r of
        None \<Rightarrow> Returned d
      | Some ob \<Rightarrow>
          (let d1 = d\<lparr>objects := (objects d)(r \<mapsto> ob\<lparr>listeners := listeners ob @ [cb]\<rparr>)\<rparr> in
             case (if Transport_isPaused (obj ob)
                   then call r (Transport_resume (Finite 0) (Finite 0)) d1
                   else call r (Transport_start_sync file) d1) of
               Threw e d2 \<Rightarrow> Threw e d2
             | Returned d2 \<Rightarrow> Returned (Dispatcher_send NotifyStart (MsgUuid (uuid (obj ob))) d2)))"

text \<open>
  One turn of the queue's loop: if fewer than \<open>concurrency\<close> tasks run and a task
  waits, the worker, \<open>_invoke\<close>, is called on the first waiting task. In the library
  the loop runs when a task is inserted and when a callback is called; in the model a
  turn is a step of its own, which may follow any other step. A task that is no
  transport has no method \<open>on\<close>: the worker throws, and its callback is never called.
\<close>

definition Dispatcher_admit :: "local_file \<Rightarrow> 'a dispatcher \<Rightarrow> 'a dispatcher outcome" where
  "Dispatcher_admit file d =
     (case q_take (task_queue d) of
        None \<Rightarrow> Returned d
      | Some (cb, Object r, q) \<Rightarrow> Dispatcher_invoke file r cb (d\<lparr>task_queue := q\<rparr>)
      | Some (cb, Inherited k, q) \<Rightarrow>
          Threw ''TypeError: transport.on is not a function'' (d\<lparr>task_queue := q\<rparr>))"

definition Dispatcher_resumeItem :: "string \<Rightarrow> 'a dispatcher \<Rightarrow> 'a dispatcher" where
  "Dispatcher_resumeItem u d =
     (case cache_get d u of
        Some c \<Rightarrow> d\<lparr>task_queue := q_unshift c (task_queue d)\<rparr>
      | None \<Rightarrow> d)"

text \<open>
  \<open>addItem(config)\<close>. The constructor of the sources takes the credentials and the
  configuration as two arguments, while the Dispatcher passes one object that holds
  both, on which the constructor of the sources throws; the model reads the fields
  from the configuration the Dispatcher was given, so that tasks exist at all.
  A \<open>uuid\<close> is truthy when it is not the empty string.
\<close>

definition Dispatcher_addItem :: "config \<Rightarrow> unit dispatcher \<Rightarrow> unit dispatcher" where
  "Dispatcher_addItem cfg d =
     (if cfg_uuid cfg \<noteq> [] then
        (let d1 = (if cache_get d (cfg_uuid cfg) = None then
                     d\<lparr>transportCache := (transportCache d)(cfg_uuid cfg \<mapsto> allocated d),
                       objects := (objects d)(allocated d \<mapsto>
                                    \<lparr>obj = Transport_new cfg, listeners = []\<rparr>),
                       allocated := allocated d + 1\<rparr>
                   else d)
         in Dispatcher_resumeItem (cfg_uuid cfg) d1)
      else d)"

text \<open>
  \<open>addPatch\<close> calls \<open>addItem\<close> for each object key, all with the uuid of the patch.
  \<open>path.posix.join\<close> and \<open>path.join\<close> of Node are the parameters \<open>posixJoin\<close> and
  \<open>join\<close>.
\<close>

fun Dispatcher_addPatch ::
  "(string \<Rightarrow> string \<Rightarrow> string) \<Rightarrow> (string \<Rightarrow> string \<Rightarrow> string) \<Rightarrow>
   string \<Rightarrow> string \<Rightarrow> string \<Rightarrow> string list \<Rightarrow> string \<Rightarrow> unit dispatcher \<Rightarrow> unit dispatcher" where
  "Dispatcher_addPatch posixJoin join u bucket prefix' [] path d = d"
| "Dispatcher_addPatch posixJoin join u bucket prefix' (item # objectKeys) path d =
     Dispatcher_addPatch posixJoin join u bucket prefix' objectKeys path
       (Dispatcher_addItem
          \<lparr>cfg_uuid = u, cfg_bucketName = bucket, cfg_objectKey = posixJoin prefix' item,
           cfg_localPath = join path item\<rparr> d)"

text \<open>
  \<open>pauseItem({uuid})\<close>; the method \<open>pause\<close> of the class of the cached objects is a
  parameter. On an inherited value, which has no such method, the call throws. The
  Dispatcher of the sources holds download transports.
\<close>

definition Dispatcher_pauseItem_on ::
  "('a transport_scheme \<Rightarrow> 'a transport_scheme \<times> effect list) \<Rightarrow> string \<Rightarrow> 'a dispatcher
     \<Rightarrow> 'a dispatcher outcome" where
  "Dispatcher_pauseItem_on pause u d =
     (case cache_get d u of
        Some (Object r) \<Rightarrow> call r pause d
      | Some (Inherited k) \<Rightarrow> Threw ''TypeError: pause is not a function'' d
      | None \<Rightarrow> Returned d)"

definition Dispatcher_pauseItem :: "string \<Rightarrow> unit dispatcher \<Rightarrow> unit dispatcher outcome" where
  "Dispatcher_pauseItem u d = Dispatcher_pauseItem_on Transport_pause u d"

text \<open>
  \<open>pauseAll\<close>: the queue's \<open>remove\<close> calls the test on each waiting task in order and
  removes the task when the test returns true; the test pauses the transport.
\<close>

fun pause_each :: "cached list \<Rightarrow> unit dispatcher \<Rightarrow> unit dispatcher outcome" where
  "pause_each [] d = Returned d"
| "pause_each (Inherited k # rs) d = Threw ''TypeError: pause is not a function'' d"
| "pause_each (Object r # rs) d =
     (case call r Transport_pause d of
        Threw e d1 \<Rightarrow> Threw e d1
      | Returned d1 \<Rightarrow>
          pause_each rs (d1\<lparr>task_queue := (task_queue d1)\<lparr>q_tasks := rs\<rparr>\<rparr>))"

definition Dispatcher_pauseAll :: "unit dispatcher \<Rightarrow> unit dispatcher outcome" where
  "Dispatcher_pauseAll d = pause_each (q_tasks (task_queue d)) d"


text \<open>
  The steps of a Dispatcher: the commands it is sent, a turn of its queue, and a
  callback of one of its transports.
\<close>

datatype step =
    AddItem config
  | AddPatch "string \<Rightarrow> string \<Rightarrow> string" "string \<Rightarrow> string \<Rightarrow> string"
      string string string "string list" string
  | PauseItem string
  | PauseAll
  | ResumeItem string
  | Admit local_file
  | TransportCallback nat callback

fun Dispatcher_step :: "step \<Rightarrow> unit dispatcher \<Rightarrow> unit dispatcher outcome" where
  "Dispatcher_step (AddItem cfg) d = Returned (Dispatcher_addItem cfg d)"
| "Dispatcher_step (AddPatch posixJoin join u bucket prefix' objectKeys path) d =
     Returned (Dispatcher_addPatch posixJoin join u bucket prefix' objectKeys path d)"
| "Dispatcher_step (PauseItem u) d = Dispatcher_pauseItem u d"
| "Dispatcher_step PauseAll d = Dispatcher_pauseAll d"
| "Dispatcher_step (ResumeItem u) d = Returned (Dispatcher_resumeItem u d)"
| "Dispatcher_step (Admit file) d = Dispatcher_admit file d"
| "Dispatcher_step (TransportCallback r c) d = call r (Transport_callback c) d"

text \<open>
  An exception that leaves a command, a turn of the queue, a stream handler or a timer
  is uncaught (the \<open>message\<close> handler of the process catches nothing) and ends the
  process: the run stops in the state reached. An exception in a callback of a promise
  rejects a promise nobody waits for, and the run goes on.
\<close>

fun survives_exception :: "step \<Rightarrow> bool" where
  "survives_exception (TransportCallback r (MetadataFulfilled n mtime res)) = True"
| "survives_exception (TransportCallback r (MetadataRejected err)) = True"
| "survives_exception (TransportCallback r RequestFulfilled) = True"
| "survives_exception (TransportCallback r (RequestRejected err)) = True"
| "survives_exception _ = False"

fun Dispatcher_run :: "step list \<Rightarrow> unit dispatcher \<Rightarrow> unit dispatcher" where
  "Dispatcher_run [] d = d"
| "Dispatcher_run (s # ss) d =
     (case Dispatcher_step s d of
        Returned d1 \<Rightarrow> Dispatcher_run ss d1
      | Threw e d1 \<Rightarrow> if survives_exception s then Dispatcher_run ss d1 else d1)"

text \<open>The tasks that are active: invoked by the queue, callback not yet called.\<close>

definition active :: "'a dispatcher \<Rightarrow> cached list" where
  "active d = map snd (q_workers (task_queue d))"

section \<open>Auxiliary definitions\<close>

text \<open>The bound of the queue: its concurrency is 5 and at most 5 tasks are running.\<close>

definition bounded :: "'a dispatcher \<Rightarrow> bool" where
  "bounded d = (q_concurrency (task_queue d) = 5 \<and> length (q_workers (task_queue d)) \<le> 5)"

text \<open>
  Sample inputs: the configuration of a download task; an upload in progress, which
  has its upload session and has sent one part of 20 MiB; and a dispatcher of the
  uploader that holds this upload, admitted by the queue with callback 0.
\<close>

definition sample_config :: config where
  "sample_config =
     \<lparr>cfg_uuid = ''task-1'', cfg_bucketName = ''bucket'', cfg_objectKey = ''a.bin'',
      cfg_localPath = ''/tmp/a.bin''\<rparr>"

definition sample_upload :: multi_transport where
  "sample_upload =
     \<lparr>uuid = ''task-2'', objectKey = ''b.bin'', localPath = ''/tmp/b.bin'',
      bucketName = ''bucket'', state = Running, outputStream = None, aliveTimer = None,
      uploadId = Some ''upload-1'', uploadedSize = Finite 20971520,
      stream = Some \<lparr>rs_start = Finite 20971520, rs_end = Finite 41943039\<rparr>,
      part_queue = q_new 1, resume_promise = Pending\<rparr>"


section \<open>Rounding\<close>

lemma bit_length_less: "n < 2 ^ k \<Longrightarrow> bit_length n \<le> k"
proof (induction n arbitrary: k rule: bit_length.induct)
  case (1 n)
  show ?case
  proof (cases "n = 0")
    case True
    then show ?thesis by (simp add: bit_length.simps)
  next
    case False
    with "1.prems" obtain j where k: "k = Suc j" by (cases k) auto
    with "1.prems" have "n div 2 < 2 ^ j" by auto
    with "1.IH" [OF False] have "bit_length (n div 2) \<le> j" by blast
    with False k show ?thesis by (simp add: bit_length.simps [of n])
  qed
qed

lemma bit_length_bounds:
  "0 < n \<Longrightarrow> 2 ^ (bit_length n - 1) \<le> n \<and> n < 2 ^ bit_length n"
proof (induction n rule: bit_length.induct)
  case (1 n)
  show ?case
  proof (cases "n div 2 = 0")
    case True
    with "1.prems" have "n = 1" by auto
    then show ?thesis by (simp add: bit_length.simps)
  next
    case False
    then have pos: "0 < n div 2" by simp
    from "1.IH" pos "1.prems"
    have IH: "2 ^ (bit_length (n div 2) - 1) \<le> n div 2 \<and> n div 2 < 2 ^ bit_length (n div 2)"
      by simp
    have b: "bit_length n = Suc (bit_length (n div 2))"
      using "1.prems" by (simp add: bit_length.simps [of n])
    have b2: "0 < bit_length (n div 2)"
      using pos by (simp add: bit_length.simps [of "n div 2"])
    then obtain j where j: "bit_length (n div 2) = Suc j" by (cases "bit_length (n div 2)") auto
    from IH j have "2 * 2 ^ j \<le> n" and "n < 2 * 2 ^ Suc j" by auto
    with b j show ?thesis by simp
  qed
qed

lemma bit_length_bounds_int:
  fixes p :: int
  assumes "0 < p"
  shows "2 ^ (bit_length (nat p) - 1) \<le> p \<and> p < 2 ^ bit_length (nat p)"
proof -
  have np: "0 < nat p" using assms by simp
  from bit_length_bounds [OF np]
  have "int (2 ^ (bit_length (nat p) - 1)) \<le> int (nat p)"
    and "int (nat p) < int (2 ^ bit_length (nat p))"
    by (simp_all only: of_nat_le_iff of_nat_less_iff)
  moreover have "int (nat p) = p" using assms by simp
  ultimately show ?thesis by simp
qed

lemma rne_exact: "rne x 1 = x"
  by (simp add: rne_def)

text \<open>An integer of at most 53 bits is a double: nothing is rounded.\<close>

lemma fl_int_safe: "\<bar>n\<bar> < 2 ^ 53 \<Longrightarrow> fl_int n = Finite n"
proof -
  assume a: "\<bar>n\<bar> < 2 ^ 53"
  then have "nat \<bar>n\<bar> < 2 ^ 53" by (simp add: nat_less_iff)
  then have "bit_length (nat \<bar>n\<bar>) \<le> 53" by (rule bit_length_less)
  then have s: "bit_length (nat \<bar>n\<bar>) - 53 = 0" by simp
  have "\<bar>n\<bar> < 2 ^ 1024"
    using a by (rule less_trans) simp
  then show ?thesis
    by (simp add: fl_int_def s rne_exact Let_def)
qed

lemma rne_error_aux:
  fixes x y f r m :: int
  assumes "0 \<le> r" and "r < y" and "x = y * f + r"
    and "m = (if 2 * r < y then f else if y < 2 * r then f + 1 else if even f then f else f + 1)"
  shows "2 * \<bar>y * m - x\<bar> \<le> y"
  using assms by (auto simp: algebra_simps)

text \<open>Rounding to the nearest integer moves a quotient by at most one half.\<close>

lemma rne_error: "0 < y \<Longrightarrow> 2 * \<bar>y * rne x y - x\<bar> \<le> y"
proof -
  assume y: "0 < y"
  have e: "x = y * (x div y) + x mod y" by simp
  have r: "0 \<le> x mod y" "x mod y < y" using y by simp_all
  show ?thesis
    by (rule rne_error_aux [OF r e]) (simp add: rne_def Let_def)
qed

lemma rne_nonneg: "0 < y \<Longrightarrow> 0 \<le> x \<Longrightarrow> 0 \<le> rne x y"
  by (simp add: rne_def Let_def pos_imp_zdiv_nonneg_iff)

lemma rne_multiple: "0 < q \<Longrightarrow> rne (q * c) q = c"
  by (simp add: rne_def Let_def)

lemma quot_exponent_safe:
  fixes p q :: int
  assumes p: "0 < p" "p < 2 ^ 53" and q: "0 < q"
  shows "0 \<le> 52 - quot_exponent p q
       \<and> q * 2 ^ 52 \<le> p * 2 ^ nat (52 - quot_exponent p q)"
proof -
  let ?lp = "bit_length (nat p)" and ?lq = "bit_length (nat q)"
  have np: "0 < nat p" and nq: "0 < nat q" using p q by simp_all
  from bit_length_bounds_int [OF p(1)] have pb: "2 ^ (?lp - 1) \<le> p" "p < 2 ^ ?lp"
    by simp_all
  from bit_length_bounds_int [OF q] have qb: "2 ^ (?lq - 1) \<le> q" "q < 2 ^ ?lq"
    by simp_all
  have "nat p < 2 ^ 53" using p by (simp add: nat_less_iff)
  then have lp53: "?lp \<le> 53" by (rule bit_length_less)
  have lp1: "1 \<le> ?lp" using np by (simp add: bit_length.simps [of "nat p"])
  have lq1: "1 \<le> ?lq" using nq by (simp add: bit_length.simps [of "nat q"])
  show ?thesis
  proof (cases "q * 2 ^ ?lp \<le> p * 2 ^ ?lq")
    case True
    then have e: "quot_exponent p q = int ?lp - int ?lq"
      by (simp add: quot_exponent_def Let_def)
    have k0: "0 \<le> 52 - (int ?lp - int ?lq)" using lp53 lq1 by linarith
    have kn: "nat (52 - (int ?lp - int ?lq)) + ?lp = 52 + ?lq" using k0 by linarith
    have "q * 2 ^ 52 * 2 ^ ?lp = (q * 2 ^ ?lp) * 2 ^ 52" by simp
    also have "\<dots> \<le> (p * 2 ^ ?lq) * 2 ^ 52" using True by simp
    also have "\<dots> = p * 2 ^ (52 + ?lq)" by (simp add: power_add)
    also have "\<dots> = p * 2 ^ nat (52 - (int ?lp - int ?lq)) * 2 ^ ?lp"
      by (simp only: kn [symmetric] power_add mult.assoc)
    finally have "q * 2 ^ 52 \<le> p * 2 ^ nat (52 - (int ?lp - int ?lq))"
      by simp
    with k0 e show ?thesis by simp
  next
    case False
    then have e: "quot_exponent p q = int ?lp - int ?lq - 1"
      by (simp add: quot_exponent_def Let_def)
    have k0: "0 \<le> 52 - (int ?lp - int ?lq - 1)" using lp53 lq1 by linarith
    have kn: "nat (52 - (int ?lp - int ?lq - 1)) + ?lp = 53 + ?lq" using k0 by arith
    have l: "Suc (?lp - 1) = ?lp" using lp1 by simp
    have "q * 2 ^ 52 * 2 ^ ?lp \<le> 2 ^ ?lq * 2 ^ 52 * 2 ^ ?lp"
      using qb by simp
    also have "\<dots> = 2 ^ (?lp - 1) * 2 ^ (53 + ?lq)"
    proof -
      have "(2::int) ^ ?lq * 2 ^ 52 * 2 ^ ?lp = 2 ^ (?lq + 52 + ?lp)" by (simp add: power_add)
      also have "?lq + 52 + ?lp = (?lp - 1) + (53 + ?lq)" using lp1 by linarith
      finally show ?thesis by (simp only: power_add)
    qed
    also have "\<dots> \<le> p * 2 ^ (53 + ?lq)" using pb by simp
    also have "\<dots> = p * 2 ^ nat (52 - (int ?lp - int ?lq - 1)) * 2 ^ ?lp"
      by (simp only: kn [symmetric] power_add mult.assoc)
    finally have "q * 2 ^ 52 \<le> p * 2 ^ nat (52 - (int ?lp - int ?lq - 1))"
      by simp
    with k0 e show ?thesis by simp
  qed
qed

lemma ceil_between:
  fixes m K c :: int
  assumes "0 < K" and "c * K < m" and "m \<le> (c + 1) * K"
  shows "- ((- m) div K) = c + 1"
proof -
  have "(- m) div K = - (c + 1)"
  proof (rule int_div_pos_eq)
    show "- m = K * - (c + 1) + ((c + 1) * K - m)" by (simp add: algebra_simps)
    show "0 \<le> (c + 1) * K - m" using assms by simp
    show "(c + 1) * K - m < K" using assms by (simp add: algebra_simps)
  qed
  then show ?thesis by simp
qed

lemma ceil_div_exact:
  fixes p q :: int
  assumes "0 < q"
  shows "- ((- p) div q) = (if p mod q = 0 then p div q else p div q + 1)"
proof (cases "p mod q = 0")
  case True
  then have "p = q * (p div q)" by auto
  then have "- p = q * (- (p div q))" by simp
  then have "(- p) div q = - (p div q)"
    using assms by (metis nonzero_mult_div_cancel_left less_irrefl)
  with True show ?thesis by simp
next
  case False
  have e: "q * (p div q) + p mod q = p" by (rule mult_div_mod_eq)
  have r: "0 < p mod q" "p mod q < q"
    using assms False pos_mod_sign [of q p] pos_mod_bound [of q p] by linarith+
  have "- ((- p) div q) = p div q + 1"
  proof (rule ceil_between [OF assms])
    have "q * (p div q) < p" using e r by linarith
    then show "p div q * q < p" by (simp add: mult.commute)
    have "p \<le> q * (p div q) + q" using e r by linarith
    then show "p \<le> (p div q + 1) * q" by (simp add: algebra_simps)
  qed
  with False show ?thesis by simp
qed

text \<open>
  For a numerator of at most 53 bits the ceiling of the rounded quotient is the ceiling
  of the exact quotient: the double lies strictly between the same two integers.
\<close>

lemma fl_quot_ceil_safe:
  fixes p q :: int
  assumes p: "0 < p" "p < 2 ^ 53" and q: "0 < q"
  shows "ceil_scaled (fl_quot p q) = - ((- p) div q)"
proof -
  define k where "k = 52 - quot_exponent p q"
  define K :: int where "K = 2 ^ nat k"
  define m where "m = rne (p * K) q"
  define c where "c = p div q"
  define r where "r = p mod q"
  from quot_exponent_safe [OF p q] have k0: "0 \<le> k" and low: "q * 2 ^ 52 \<le> p * K"
    by (simp_all add: k_def K_def)
  have K0: "0 < K" by (simp add: K_def)
  have fl: "ceil_scaled (fl_quot p q) = - ((- m) div K)"
    using k0 by (simp add: fl_quot_def Let_def k_def [symmetric] K_def m_def)
  have "p * K < 2 ^ 53 * K" using p K0 by simp
  with low have "q * 2 ^ 52 < 2 * 2 ^ 52 * K" by simp
  then have qK: "q < 2 * K" by simp
  have pe: "p = q * c + r" by (simp add: c_def r_def)
  have rb: "0 \<le> r" "r < q" using q by (simp_all add: r_def)
  show ?thesis
  proof (cases "r = 0")
    case True
    then have "p * K = q * (c * K)" using pe by simp
    then have "m = c * K" unfolding m_def using q by (simp only: rne_multiple)
    moreover have "((- c) * K) div K = - c"
      using K0 by (intro nonzero_mult_div_cancel_right) simp
    ultimately have "- ((- m) div K) = c" by simp
    moreover have "- ((- p) div q) = c"
      using True ceil_div_exact [OF q, of p] by (simp add: c_def r_def)
    ultimately show ?thesis using fl by simp
  next
    case False
    with rb have r1: "1 \<le> r" by simp
    define A where "A = q * m"
    define B where "B = q * (c * K)"
    define R where "R = r * K"
    define Q where "Q = q * K"
    have pK: "p * K = B + R" by (simp add: pe B_def R_def algebra_simps)
    have "1 * K \<le> r * K" using r1 K0 by (intro mult_right_mono) simp_all
    then have R1: "K \<le> R" by (simp add: R_def)
    have "r * K \<le> (q - 1) * K" using rb K0 by (intro mult_right_mono) simp_all
    then have R2: "R \<le> Q - K" by (simp add: R_def Q_def algebra_simps)
    have "2 * \<bar>q * m - p * K\<bar> \<le> q" unfolding m_def using q by (rule rne_error)
    then have err: "2 * \<bar>A - (B + R)\<bar> \<le> q" by (simp add: A_def pK)
    have e1: "2 * (A - (B + R)) \<le> q" and e2: "2 * ((B + R) - A) \<le> q"
      using err by (simp_all add: abs_if split: if_splits)
    have "B < A" using e2 R1 qK by presburger
    then have "q * (c * K) < q * m" by (simp add: A_def B_def)
    then have lo: "c * K < m" using q by simp
    have "A < B + Q" using e1 R2 qK by presburger
    then have "q * m < q * ((c + 1) * K)" by (simp add: A_def B_def Q_def algebra_simps)
    then have "m < (c + 1) * K" using q by simp
    then have hi: "m \<le> (c + 1) * K" by simp
    have "- ((- m) div K) = c + 1" using K0 lo hi by (rule ceil_between)
    moreover have "- ((- p) div q) = c + 1"
      using False ceil_div_exact [OF q, of p] by (simp add: c_def r_def)
    ultimately show ?thesis using fl by simp
  qed
qed

lemma floor_scaled_nonneg: "0 < p \<Longrightarrow> 0 < q \<Longrightarrow> 0 \<le> floor_scaled (fl_quot p q)"
proof -
  assume p: "0 < p" and q: "0 < q"
  have "0 \<le> rne (p * 2 ^ n) q" for n
    using q p by (intro rne_nonneg) simp_all
  moreover have "0 \<le> rne p (q * 2 ^ n)" for n
    using q p by (intro rne_nonneg) simp_all
  ultimately show ?thesis
    by (simp add: fl_quot_def Let_def pos_imp_zdiv_nonneg_iff)
qed


section \<open>The chunk planner\<close>

lemma js_min_finite: "js_min (Finite l) (Finite a) = Finite (min l a)"
  by (simp add: js_min_def)

lemma js_min_infinite: "js_min (Finite l) PosInfinity = Finite l"
  by (simp add: js_min_def)

lemma js_add_safe: "\<bar>a + b\<bar> < 2 ^ 53 \<Longrightarrow> js_add (Finite a) (Finite b) = Finite (a + b)"
  by (simp add: fl_int_safe)

lemma js_sub_safe: "\<bar>a - b\<bar> < 2 ^ 53 \<Longrightarrow> js_sub (Finite a) (Finite b) = Finite (a - b)"
  by (simp add: js_sub_def fl_int_safe)

text \<open>
  While its numbers stay below \<open>2 ^ 53\<close> the loop computes exactly, and returns the
  plan.
\<close>

lemma while_plan:
  "0 < a \<Longrightarrow> 0 \<le> off \<Longrightarrow> off + l < 2 ^ 53 \<Longrightarrow>
   decompose_while (Finite a) acc (Finite l) (Finite off) n = Some (acc @ plan a l off n)"
proof (induction a l off n arbitrary: acc rule: plan.induct)
  case (1 a l off n)
  show ?case
  proof (cases "0 < l")
    case True
    let ?s = "min l a"
    have s: "0 < ?s" "?s \<le> l" using True "1.prems" by simp_all
    have sub: "js_sub (Finite l) (Finite ?s) = Finite (l - ?s)"
      using s "1.prems" by (intro js_sub_safe) simp
    have add: "js_add (Finite off) (Finite ?s) = Finite (off + ?s)"
      using s "1.prems" by (intro js_add_safe) simp
    have IH: "decompose_while (Finite a) acc' (Finite (l - ?s)) (Finite (off + ?s)) (Suc n)
        = Some (acc' @ plan a (l - ?s) (off + ?s) (Suc n))" for acc'
      using "1.IH" [of acc'] True "1.prems" s by simp
    show ?thesis
      using True "1.prems"
      by (subst decompose_while.simps, subst plan.simps)
         (simp add: js_min_finite sub add IH Let_def del: js_add.simps)
  next
    case False
    then show ?thesis
      by (subst decompose_while.simps, subst plan.simps) simp
  qed
qed

lemma while_unbounded_part:
  "decompose_while PosInfinity acc (Finite l) (Finite off) n =
     Some (acc @ (if 0 < l
                  then [\<lparr>partNumber = n, partSize = Finite l, start = Finite off\<rparr>] else []))"
proof (cases "0 < l")
  case True
  have z: "js_sub (Finite l) (Finite l) = Finite 0"
    by (simp add: js_sub_def fl_int_safe)
  have stop: "decompose_while PosInfinity acc' (Finite 0) x n' = Some acc'" for acc' x n'
    by (subst decompose_while.simps) simp
  from True show ?thesis
    by (subst decompose_while.simps)
       (simp add: js_min_infinite z stop Let_def del: js_add.simps)
next
  case False
  then show ?thesis by (subst decompose_while.simps) simp
qed

lemma plan_sum:
  "0 < a \<Longrightarrow> 0 \<le> l \<Longrightarrow> exact_sum (map partSize (plan a l off n)) = Finite l"
proof (induction a l off n rule: plan.induct)
  case (1 a l off n)
  show ?case
  proof (cases "0 < l")
    case True
    with 1 show ?thesis by (subst plan.simps) simp
  next
    case False
    with "1.prems" have "l = 0" by simp
    then show ?thesis by (subst plan.simps) simp
  qed
qed

lemma plan_contiguous: "contiguous_from (Finite off) (plan a l off n)"
proof (induction a l off n rule: plan.induct)
  case (1 a l off n)
  then show ?case by (subst plan.simps) simp
qed

lemma plan_length: "0 < a \<Longrightarrow> l \<le> int k * a \<Longrightarrow> length (plan a l off n) \<le> k"
proof (induction a l off n arbitrary: k rule: plan.induct)
  case (1 a l off n)
  show ?case
  proof (cases "0 < l")
    case False
    then show ?thesis by (subst plan.simps) simp
  next
    case True
    with "1.prems" have "k \<noteq> 0" by (cases k) auto
    then obtain j where k: "k = Suc j" by (cases k) auto
    have "l - min l a \<le> int j * a"
      using "1.prems" k by (simp add: algebra_simps min_def)
    with 1 True have "length (plan a (l - min l a) (off + min l a) (n + 1)) \<le> j"
      by simp
    with True "1.prems" k show ?thesis by (subst plan.simps) simp
  qed
qed

text \<open>
  The part size for arguments below \<open>2 ^ 53\<close>: infinite when the divisor is zero,
  otherwise the larger of \<open>kPartSize\<close> and the exact ceiling.
\<close>

lemma averagePartSize_cases:
  fixes T d :: int
  assumes T: "0 < T" "T < 2 ^ 53"
  shows "js_max (Finite kPartSize) (js_ceil_div T (Finite d)) =
     (if d = 0 then PosInfinity else Finite (max kPartSize (- ((- T) div d))))"
proof -
  consider "d = 0" | "0 < d" | "d < 0" by linarith
  then show ?thesis
  proof cases
    case 1
    with T show ?thesis by (simp add: js_max_def js_ceil_div_def)
  next
    case 2
    with T have "js_ceil_div T (Finite d) = Finite (- ((- T) div d))"
      by (simp add: js_ceil_div_def fl_quot_ceil_safe)
    with 2 show ?thesis by (simp add: js_max_def max_def)
  next
    case 3
    have f: "0 \<le> floor_scaled (fl_quot T (- d))"
      using T 3 by (intro floor_scaled_nonneg) simp_all
    have "0 \<le> (- T) div d" using T 3 by (simp add: neg_imp_zdiv_nonneg_iff)
    then have m: "max kPartSize (- ((- T) div d)) = kPartSize"
      by (simp add: kPartSize_def)
    from 3 T have "js_ceil_div T (Finite d) = Finite (- floor_scaled (fl_quot T (- d)))"
      by (simp add: js_ceil_div_def)
    with f 3 m show ?thesis by (simp add: js_max_def kPartSize_def)
  qed
qed

lemma ceil_div_covers: "0 < d \<Longrightarrow> T \<le> d * (- ((- T) div d))" for T d :: int
proof -
  assume d: "0 < d"
  have e: "d * ((- T) div d) + (- T) mod d = - T"
    by (rule mult_div_mod_eq)
  have m: "0 \<le> (- T) mod d"
    using d by simp
  have "d * ((- T) div d) \<le> - T"
    using e m by linarith
  then show ?thesis by simp
qed

lemma kPartSize_pos: "0 < kPartSize"
  by (simp add: kPartSize_def)

text \<open>What \<open>_decompose\<close> returns for arguments below \<open>2 ^ 53\<close>.\<close>

lemma decompose_pos:
  assumes "0 < totalSize" and "totalSize < 2 ^ 53" and "uploadSize < 2 ^ 53"
    and "maxParts < 2 ^ 53" and "length orderedParts < 2 ^ 53"
  shows "MultiTransport_decompose orderedParts maxParts uploadSize totalSize =
     Some (if int maxParts - int (length orderedParts) = 0
           then (if uploadSize < totalSize
                 then [\<lparr>partNumber = length orderedParts + 1,
                         partSize = Finite (int totalSize - int uploadSize),
                         start = Finite (int uploadSize)\<rparr>]
                 else [])
           else plan (max kPartSize
                       (- ((- int totalSize) div (int maxParts - int (length orderedParts)))))
                  (int totalSize - int uploadSize) (int uploadSize) (length orderedParts + 1))"
proof -
  let ?d = "int maxParts - int (length orderedParts)"
  let ?a = "max kPartSize (- ((- int totalSize) div ?d))"
  have T: "0 < int totalSize" "int totalSize < 2 ^ 53"
    using assms(1,2) by (simp_all flip: of_nat_less_iff)
  have U: "int uploadSize < 2 ^ 53" using assms(3) by (simp flip: of_nat_less_iff)
  have M: "int maxParts < 2 ^ 53" using assms(4) by (simp flip: of_nat_less_iff)
  have L: "int (length orderedParts) < 2 ^ 53" using assms(5) by (simp flip: of_nat_less_iff)
  have d: "js_sub (Finite (int maxParts)) (Finite (int (length orderedParts))) = Finite ?d"
    using M L by (intro js_sub_safe) simp
  have l: "js_sub (Finite (int totalSize)) (Finite (int uploadSize))
      = Finite (int totalSize - int uploadSize)"
    using T U by (intro js_sub_safe) simp
  have avg: "js_max (Finite kPartSize) (js_ceil_div (int totalSize) (Finite ?d)) =
      (if ?d = 0 then PosInfinity else Finite ?a)"
    using T by (rule averagePartSize_cases)
  have a: "0 < ?a" using kPartSize_pos by simp
  show ?thesis
  proof (cases "?d = 0")
    case True
    then show ?thesis
      unfolding MultiTransport_decompose_def Let_def d l avg
      by (simp add: while_unbounded_part)
  next
    case False
    have "int uploadSize + (int totalSize - int uploadSize) < 2 ^ 53" using T by simp
    from while_plan [OF a _ this, of "[]" "length orderedParts + 1"] False
    show ?thesis
      unfolding MultiTransport_decompose_def Let_def d l avg by simp
  qed
qed


text \<open>
  C2 as stated does not hold. For a file of \<open>2 ^ 54\<close> bytes and \<open>maxParts = 6\<close> the
  subtractions of the loop round: six parts are returned whose sizes sum to two bytes
  less than the file.
\<close>

theorem decompose_sum_rounded:
  "MultiTransport_decompose ([]::unit list) 6 0 18014398509481984 =
     Some [\<lparr>partNumber = 1, partSize = Finite 3002399751580331, start = Finite 0\<rparr>,
           \<lparr>partNumber = 2, partSize = Finite 3002399751580331,
            start = Finite 3002399751580331\<rparr>,
           \<lparr>partNumber = 3, partSize = Finite 3002399751580331,
            start = Finite 6004799503160662\<rparr>,
           \<lparr>partNumber = 4, partSize = Finite 3002399751580331,
            start = Finite 9007199254740992\<rparr>,
           \<lparr>partNumber = 5, partSize = Finite 3002399751580331,
            start = Finite 12009599006321324\<rparr>,
           \<lparr>partNumber = 6, partSize = Finite 3002399751580327,
            start = Finite 15011998757901656\<rparr>]
   \<and> 3002399751580331 + 3002399751580331 + 3002399751580331 + 3002399751580331
       + 3002399751580331 + 3002399751580327 = (18014398509481984 - 2 :: int)
   \<and> exact_sum (map partSize
         [\<lparr>partNumber = 1, partSize = Finite 3002399751580331, start = Finite 0\<rparr>,
          \<lparr>partNumber = 2, partSize = Finite 3002399751580331,
           start = Finite 3002399751580331\<rparr>,
          \<lparr>partNumber = 3, partSize = Finite 3002399751580331,
           start = Finite 6004799503160662\<rparr>,
          \<lparr>partNumber = 4, partSize = Finite 3002399751580331,
           start = Finite 9007199254740992\<rparr>,
          \<lparr>partNumber = 5, partSize = Finite 3002399751580331,
           start = Finite 12009599006321324\<rparr>,
          \<lparr>partNumber = 6, partSize = Finite 3002399751580327,
           start = Finite 15011998757901656\<rparr>])
       \<noteq> Finite (int 18014398509481984 - int 0)"
  by (simp add: MultiTransport_decompose_def Let_def kPartSize_def js_sub_def js_max_def
      js_min_def js_ceil_div_def fl_quot_def quot_exponent_def fl_int_def rne_def
      bit_length.simps decompose_while.simps)

text \<open>
  C2, amended. For every input with \<open>totalSize > uploadSize\<close> whose numbers are below
  \<open>2 ^ 53\<close> (the integers a JavaScript number holds exactly), \<open>_decompose\<close> returns,
  the sizes of the parts it returns sum to \<open>totalSize - uploadSize\<close>, and their
  offsets are contiguous from \<open>uploadSize\<close>.
\<close>

theorem decompose_sum_contiguous:
  assumes "uploadSize < totalSize" and "totalSize < 2 ^ 53"
    and "maxParts < 2 ^ 53" and "length orderedParts < 2 ^ 53"
  shows "\<exists>ps. MultiTransport_decompose orderedParts maxParts uploadSize totalSize = Some ps
           \<and> exact_sum (map partSize ps) = Finite (int totalSize - int uploadSize)
           \<and> contiguous_from (Finite (int uploadSize)) ps"
proof -
  let ?d = "int maxParts - int (length orderedParts)"
  let ?a = "max kPartSize (- ((- int totalSize) div ?d))"
  have pos: "0 < totalSize" using assms by simp
  have U: "uploadSize < 2 ^ 53" using assms by simp
  have T: "int totalSize < 2 ^ 53" using assms(2) by (simp flip: of_nat_less_iff)
  have a: "0 < ?a" using kPartSize_pos by simp
  note dec = decompose_pos [OF pos assms(2) U assms(3) assms(4)]
  show ?thesis
  proof (cases "?d = 0")
    case True
    with assms(1) dec show ?thesis by simp
  next
    case False
    have "exact_sum (map partSize (plan ?a (int totalSize - int uploadSize) (int uploadSize)
             (length orderedParts + 1))) = Finite (int totalSize - int uploadSize)"
      using assms(1) by (intro plan_sum [OF a]) simp
    with False show ?thesis
      by (simp add: dec plan_contiguous)
  qed
qed

theorem decompose_sum_contiguous_witness:
  "(30000000::nat) < 100000000 \<and> (100000000::nat) < 2 ^ 53 \<and> (1000::nat) < 2 ^ 53
   \<and> length [(), ()] < (2::nat) ^ 53
   \<and> (\<exists>ps. MultiTransport_decompose [(), ()] 1000 30000000 100000000 = Some ps
      \<and> exact_sum (map partSize ps) = Finite (int 100000000 - int 30000000)
      \<and> contiguous_from (Finite (int 30000000)) ps)"
  using decompose_sum_contiguous [of 30000000 100000000 1000 "[(), ()]"] by simp

text \<open>
  C3 as stated does not hold. For a file of \<open>2 ^ 54\<close> bytes, no existing part and
  \<open>maxParts = 3\<close>, the quotient \<open>totalSize / 3\<close> is rounded down to a double before
  \<open>Math.ceil\<close> is taken, three parts of that size do not cover the file, and a fourth
  part is returned.
\<close>

theorem decompose_part_count_rounded:
  "length ([]::unit list) < (3::nat)
   \<and> MultiTransport_decompose ([]::unit list) 3 0 18014398509481984 =
     Some [\<lparr>partNumber = 1, partSize = Finite 6004799503160661, start = Finite 0\<rparr>,
           \<lparr>partNumber = 2, partSize = Finite 6004799503160661,
            start = Finite 6004799503160661\<rparr>,
           \<lparr>partNumber = 3, partSize = Finite 6004799503160661,
            start = Finite 12009599006321322\<rparr>,
           \<lparr>partNumber = 4, partSize = Finite 2, start = Finite 18014398509481984\<rparr>]
   \<and> \<not> length ([]::unit list)
       + length [\<lparr>partNumber = 1, partSize = Finite 6004799503160661, start = Finite 0\<rparr>,
           \<lparr>partNumber = 2, partSize = Finite 6004799503160661,
            start = Finite 6004799503160661\<rparr>,
           \<lparr>partNumber = 3, partSize = Finite 6004799503160661,
            start = Finite 12009599006321322\<rparr>,
           \<lparr>partNumber = 4, partSize = Finite 2, start = Finite 18014398509481984\<rparr>]
       \<le> (3::nat)"
  by (simp add: MultiTransport_decompose_def Let_def kPartSize_def js_sub_def js_max_def
      js_min_def js_ceil_div_def fl_quot_def quot_exponent_def fl_int_def rne_def
      bit_length.simps decompose_while.simps)

text \<open>
  C3, amended. When fewer parts exist than \<open>maxParts\<close> allows and the numbers are
  below \<open>2 ^ 53\<close>, \<open>_decompose\<close> returns, and the existing parts and the returned ones
  together are at most \<open>maxParts\<close>.
\<close>

theorem decompose_part_count:
  assumes "length orderedParts < maxParts" and "maxParts < 2 ^ 53"
    and "totalSize < 2 ^ 53" and "uploadSize < 2 ^ 53"
  shows "\<exists>ps. MultiTransport_decompose orderedParts maxParts uploadSize totalSize = Some ps
           \<and> length orderedParts + length ps \<le> maxParts"
proof (cases "0 < totalSize")
  case False
  then have z: "totalSize = 0" by simp
  have M: "int maxParts < 2 ^ 53" using assms(2) by (simp flip: of_nat_less_iff)
  have U: "int uploadSize < 2 ^ 53" using assms(4) by (simp flip: of_nat_less_iff)
  have d: "js_sub (Finite (int maxParts)) (Finite (int (length orderedParts)))
      = Finite (int maxParts - int (length orderedParts))"
    using M assms(1) by (intro js_sub_safe) simp
  have l: "js_sub (Finite 0) (Finite (int uploadSize)) = Finite (- int uploadSize)"
    using U js_sub_safe [of 0 "int uploadSize"] by simp
  have "MultiTransport_decompose orderedParts maxParts uploadSize totalSize = Some []"
    using assms(1)
    unfolding MultiTransport_decompose_def Let_def z
    by (subst decompose_while.simps) (simp add: d l js_ceil_div_def js_max_def)
  with assms show ?thesis by simp
next
  case True
  let ?d = "int maxParts - int (length orderedParts)"
  let ?k = "maxParts - length orderedParts"
  let ?m = "- ((- int totalSize) div ?d)"
  let ?a = "max kPartSize ?m"
  have L: "length orderedParts < 2 ^ 53" using assms(1,2) by simp
  have d: "0 < ?d" using assms by simp
  have k: "int ?k = ?d" using assms by simp
  have a: "0 < ?a" using kPartSize_pos by simp
  have "int totalSize \<le> ?d * ?m" using d by (rule ceil_div_covers)
  also have "\<dots> \<le> ?d * ?a" using d by (intro mult_left_mono) simp_all
  finally have "int totalSize - int uploadSize \<le> int ?k * ?a" using k by simp
  then have "length (plan ?a (int totalSize - int uploadSize) (int uploadSize)
               (length orderedParts + 1)) \<le> ?k"
    using a by (rule plan_length [rotated])
  with d assms show ?thesis
    by (simp add: decompose_pos [OF True assms(3) assms(4) assms(2) L])
qed

theorem decompose_part_count_witness:
  "length [(), ()] < (4::nat) \<and> (4::nat) < 2 ^ 53 \<and> (100 * 1024 * 1024 :: nat) < 2 ^ 53
   \<and> (0::nat) < 2 ^ 53
   \<and> (\<exists>ps. MultiTransport_decompose [(), ()] 4 0 (100 * 1024 * 1024) = Some ps
           \<and> length [(), ()] + length ps \<le> 4)"
  using decompose_part_count [of "[(), ()]" 4 "100 * 1024 * 1024" 0] by simp

text \<open>
  At the limit itself the bound is lost: with as many parts as \<open>maxParts\<close> the divisor
  is zero, the part size is infinite, and the rest of the file becomes one more part.
\<close>

lemma decompose_at_limit:
  "MultiTransport_decompose [(), ()] 2 0 100 =
     Some [\<lparr>partNumber = 3, partSize = Finite 100, start = Finite 0\<rparr>]"
  by (simp add: decompose_pos)

text \<open>
  The same loss of the bound for a file of \<open>2 ^ 60\<close> bytes and \<open>maxParts = 3\<close>: four
  parts, whose sizes sum to 64 bytes more than the file.
\<close>

lemma decompose_exbibyte:
  "MultiTransport_decompose ([]::unit list) 3 0 1152921504606846976 =
     Some [\<lparr>partNumber = 1, partSize = Finite 384307168202282304, start = Finite 0\<rparr>,
           \<lparr>partNumber = 2, partSize = Finite 384307168202282304,
            start = Finite 384307168202282304\<rparr>,
           \<lparr>partNumber = 3, partSize = Finite 384307168202282304,
            start = Finite 768614336404564608\<rparr>,
           \<lparr>partNumber = 4, partSize = Finite 128, start = Finite 1152921504606846976\<rparr>]"
  by (simp add: MultiTransport_decompose_def Let_def kPartSize_def js_sub_def js_max_def
      js_min_def js_ceil_div_def fl_quot_def quot_exponent_def fl_int_def rne_def
      bit_length.simps decompose_while.simps)

text \<open>
  C8. A file of 55 MiB, no existing part and \<open>maxParts = 1000\<close> (the floor of the part
  size is the constant \<open>kPartSize\<close>, 20 MiB): three parts, 20 MiB at 0, 20 MiB at 20 MiB
  and 15 MiB at 40 MiB, numbered 1 to 3.
\<close>

theorem decompose_55MiB:
  "MultiTransport_decompose ([]::'a list) 1000 0 (55 * 1024 * 1024) =
     Some [\<lparr>partNumber = 1, partSize = Finite (20 * 1024 * 1024), start = Finite 0\<rparr>,
           \<lparr>partNumber = 2, partSize = Finite (20 * 1024 * 1024),
            start = Finite (20 * 1024 * 1024)\<rparr>,
           \<lparr>partNumber = 3, partSize = Finite (15 * 1024 * 1024),
            start = Finite (40 * 1024 * 1024)\<rparr>]"
proof -
  have "MultiTransport_decompose ([]::'a list) 1000 0 (55 * 1024 * 1024) =
      Some (plan 20971520 57671680 0 1)"
    by (simp add: decompose_pos kPartSize_def)
  also have "plan 20971520 57671680 0 1 =
     [\<lparr>partNumber = 1, partSize = Finite 20971520, start = Finite 0\<rparr>,
      \<lparr>partNumber = 2, partSize = Finite 20971520, start = Finite 20971520\<rparr>,
      \<lparr>partNumber = 3, partSize = Finite 15728640, start = Finite 41943040\<rparr>]"
    by (simp add: plan.simps)
  finally show ?thesis by simp
qed


section \<open>The download transport\<close>

lemma js_ge_refl_finite: "js_ge (Finite n) (Finite n)"
  by (simp add: js_ge_def)

text \<open>
  C1. The claim: with the local file present, equal sizes and a newer local file,
  \<open>start()\<close> goes to Finished without opening a stream. The code: whenever the remote
  size equals the local size, whatever the modification times, the first test
  \<open>size >= xMetaSize\<close> holds and \<open>start()\<close> calls \<open>resume()\<close>: it opens the write
  stream with flag \<open>w\<close>, requests the whole object and stays Running.
\<close>

theorem start_equal_sizes_downloads_again:
  "Transport_start (Present n mtime)
     (Fulfilled \<lparr>xMetaSize = Finite n, xMetaModifiedTime = remote_mtime\<rparr>) t =
   (t\<lparr>state := Running,
      outputStream := Some \<lparr>ws_path = localPath t, ws_flags = ''w''\<rparr>\<rparr>,
    [GetObjectMetadata (bucketName t) (objectKey t),
     CreateWriteStream (localPath t) ''w'',
     SendGet (bucketName t) (objectKey t) NoRange])"
  by (simp add: Transport_start_def Transport_start_sync_def Transport_start_on_metadata_def
      Transport_resume_def js_ge_refl_finite js_truthy_def Let_def)

text \<open>
  The branch of \<open>start()\<close> that finishes at once is reached only when the size header
  is no number: for every numeric remote size the callback opens a stream.
\<close>

lemma js_ge_or_lt: "b \<noteq> NaN \<Longrightarrow> js_ge (Finite a) b \<or> js_lt (Finite a) b"
  by (cases b) (auto simp: js_ge_def js_lt_def)

lemma start_on_metadata_numeric_size:
  assumes "xMetaSize res \<noteq> NaN"
  shows "\<exists>b e. Transport_start_on_metadata n mtime res t = Transport_resume b e t"
  using js_ge_or_lt [OF assms, of n]
  by (auto simp: Transport_start_on_metadata_def)

text \<open>
  C4 as stated does not hold. The \<open>error\<close> handler that \<open>resume\<close> puts on the write
  stream passes the error on only when its code is \<open>EACCES\<close>. When the local path
  is a directory the stream fails to open with \<open>EISDIR\<close>: the handler drops the
  error, the task stays Running and nothing is emitted.
\<close>

theorem stream_error_not_notified:
  "Transport_on_stream_error
     (ErrError ''EISDIR: illegal operation on a directory, open'' ''Error: EISDIR''
        (Some ''EISDIR''))
     \<lparr>uuid = ''task-1'', objectKey = ''a.bin'', localPath = ''/tmp/a.bin'',
      bucketName = ''bucket'', state = Running,
      outputStream = Some \<lparr>ws_path = ''/tmp/a.bin'', ws_flags = ''w''\<rparr>,
      aliveTimer = None\<rparr>
   = (\<lparr>uuid = ''task-1'', objectKey = ''a.bin'', localPath = ''/tmp/a.bin'',
       bucketName = ''bucket'', state = Running,
       outputStream = Some \<lparr>ws_path = ''/tmp/a.bin'', ws_flags = ''w''\<rparr>,
       aliveTimer = None\<rparr>, [])"
  by (simp add: Transport_on_stream_error_def)

text \<open>
  C4, amended. While the task is Running, every error that reaches \<open>_checkError\<close> (a
  rejected download request, a rejected metadata request, an exception of \<open>mkdirp\<close>)
  becomes exactly one \<open>error\<close> event with the uuid of the task and a description, and
  the task goes to Error; an error event of the write stream reaches \<open>_checkError\<close>
  when its code is \<open>EACCES\<close>, and is dropped otherwise.
\<close>

theorem running_errors_are_notified:
  assumes "state t = Running"
  shows "Transport_checkError err t =
           (t\<lparr>state := Error\<rparr>, [Emit (EvError (uuid t) (error_text err))])
       \<and> Transport_on_request_rejected err t = Transport_checkError err t
       \<and> Transport_start_on_metadata_error err t = Transport_checkError err t
       \<and> Transport_start_sync (Absent (Some err)) t =
           (t\<lparr>state := Error\<rparr>,
            [MkdirpParent (localPath t), Emit (EvError (uuid t) (error_text err))])
       \<and> Transport_on_stream_error err t =
           (if err_code err = Some ''EACCES'' then Transport_checkError err t else (t, []))"
  using assms
  by (simp add: Transport_checkError_def Transport_isRunning_def
      Transport_on_request_rejected_def Transport_start_on_metadata_error_def
      Transport_start_sync_def Transport_on_stream_error_def)

theorem running_errors_are_notified_witness:
  "state ((Transport_new sample_config)\<lparr>state := Running\<rparr>) = Running
   \<and> Transport_checkError (ErrObject None None None (Some 503))
       ((Transport_new sample_config)\<lparr>state := Running\<rparr>)
     = ((Transport_new sample_config)\<lparr>state := Error\<rparr>,
        [Emit (EvError ''task-1'' ''Server code = 503'')])
   \<and> Transport_on_stream_error
       (ErrError ''EACCES: permission denied'' ''; at open'' (Some ''EACCES''))
       ((Transport_new sample_config)\<lparr>state := Running\<rparr>)
     = ((Transport_new sample_config)\<lparr>state := Error\<rparr>,
        [Emit (EvError ''task-1'' ''EACCES: permission denied; at open'')])"
  using running_errors_are_notified
    [of "(Transport_new sample_config)\<lparr>state := Running\<rparr>"
        "ErrObject None None None (Some 503)"]
    running_errors_are_notified
    [of "(Transport_new sample_config)\<lparr>state := Running\<rparr>"
        "ErrError ''EACCES: permission denied'' ''; at open'' (Some ''EACCES'')"]
  by (simp add: Transport_new_def sample_config_def js_show_int_def digits10.simps)

lemma resume_state: "state (fst (Transport_resume b e t)) = state t"
  by (simp add: Transport_resume_def Let_def)

lemma resume_not_terminal: "filter is_terminal (snd (Transport_resume b e t)) = []"
  by (simp add: Transport_resume_def Let_def)

lemma callback_when_not_running:
  assumes "state t \<noteq> Running"
  shows "state (fst (Transport_callback c t)) \<noteq> Running
       \<and> filter is_terminal (snd (Transport_callback c t)) = []"
proof (cases c)
  case (MetadataFulfilled n mtime res)
  with assms show ?thesis
    by (simp add: Transport_start_on_metadata_def resume_state resume_not_terminal
        Transport_checkFinish_def Transport_isRunning_def)
next
  case (AliveTimerFires now stack)
  with assms show ?thesis
    by (simp add: Transport_aliveTimer_fires_def Transport_onTimeout_def
        Transport_isRunning_def split: option.splits)
qed (use assms in \<open>simp_all add: Transport_start_on_metadata_error_def
      Transport_on_request_fulfilled_def Transport_on_request_rejected_def
      Transport_on_drain_def Transport_checkAlive_def Transport_on_stream_error_def
      Transport_checkError_def Transport_checkFinish_def Transport_isRunning_def
      Transport_pause_def\<close>)

lemma callbacks_when_not_running:
  "state t \<noteq> Running \<Longrightarrow> filter is_terminal (snd (Transport_callbacks cs t)) = []"
proof (induction cs arbitrary: t)
  case Nil
  then show ?case by simp
next
  case (Cons c cs)
  from callback_when_not_running [OF Cons.prems, of c] Cons.IH [of "fst (Transport_callback c t)"]
  show ?case by (simp add: split_beta Let_def)
qed

lemma callback_when_running:
  assumes "state t = Running"
  shows "(state (fst (Transport_callback c t)) = Running
            \<and> filter is_terminal (snd (Transport_callback c t)) = [])
       \<or> (state (fst (Transport_callback c t)) \<noteq> Running
            \<and> length (filter is_terminal (snd (Transport_callback c t))) \<le> 1)"
proof (cases c)
  case (MetadataFulfilled n mtime res)
  with assms show ?thesis
    by (simp add: Transport_start_on_metadata_def resume_state resume_not_terminal
        Transport_checkFinish_def Transport_isRunning_def)
next
  case (AliveTimerFires now stack)
  with assms show ?thesis
    by (simp add: Transport_aliveTimer_fires_def Transport_onTimeout_def
        Transport_checkError_def Transport_isRunning_def split: option.splits)
qed (use assms in \<open>simp_all add: Transport_start_on_metadata_error_def
      Transport_on_request_fulfilled_def Transport_on_request_rejected_def
      Transport_on_drain_def Transport_checkAlive_def Transport_on_stream_error_def
      Transport_checkError_def Transport_checkFinish_def Transport_isRunning_def
      Transport_pause_def\<close>)

lemma callbacks_at_most_one_terminal:
  "length (filter is_terminal (snd (Transport_callbacks cs t))) \<le> 1"
proof (induction cs arbitrary: t)
  case Nil
  then show ?case by simp
next
  case (Cons c cs)
  let ?t1 = "fst (Transport_callback c t)"
  show ?case
  proof (cases "state t = Running")
    case False
    then show ?thesis using callbacks_when_not_running [of t "c # cs"] by simp
  next
    case True
    from callback_when_running [OF True, of c] show ?thesis
    proof
      assume "state ?t1 = Running \<and> filter is_terminal (snd (Transport_callback c t)) = []"
      with Cons.IH [of ?t1] show ?thesis by (simp add: split_beta Let_def)
    next
      assume a: "state ?t1 \<noteq> Running
          \<and> length (filter is_terminal (snd (Transport_callback c t))) \<le> 1"
      then have "filter is_terminal (snd (Transport_callbacks cs ?t1)) = []"
        by (simp add: callbacks_when_not_running)
      with a show ?thesis by (simp add: split_beta Let_def)
    qed
  qed
qed

text \<open>
  C10. \<open>_checkFinish\<close> and \<open>_checkError\<close> do nothing unless the task is Running: in
  any other state they leave the task as it is and emit nothing. Hence, whatever
  callbacks arrive after a \<open>start()\<close> and in whatever order (completions, errors,
  timeouts, a pause), at most one \<open>finish\<close> or \<open>error\<close> event is emitted.
\<close>

theorem terminal_transitions_only_when_running:
  "(state t \<noteq> Running \<longrightarrow>
      Transport_checkFinish t = (t, []) \<and> Transport_checkError err t = (t, []))
   \<and> length (filter is_terminal (snd (Transport_callbacks cs t))) \<le> 1"
  using callbacks_at_most_one_terminal [of cs t]
  by (simp add: Transport_checkFinish_def Transport_checkError_def Transport_isRunning_def)

theorem terminal_transitions_only_when_running_witness:
  "state ((Transport_new sample_config)\<lparr>state := Paused\<rparr>) \<noteq> Running
   \<and> Transport_checkFinish ((Transport_new sample_config)\<lparr>state := Paused\<rparr>)
     = ((Transport_new sample_config)\<lparr>state := Paused\<rparr>, [])
   \<and> Transport_checkError (ErrString ''late'') ((Transport_new sample_config)\<lparr>state := Paused\<rparr>)
     = ((Transport_new sample_config)\<lparr>state := Paused\<rparr>, [])
   \<and> length (filter is_terminal (snd (Transport_callbacks
         [RequestRejected (ErrString ''reset''), RequestFulfilled, AliveTimerFires 20000 []]
         ((Transport_new sample_config)\<lparr>state := Paused\<rparr>)))) \<le> 1
   \<and> snd (Transport_callbacks
         [RequestRejected (ErrString ''reset''), RequestFulfilled, AliveTimerFires 20000 []]
         ((Transport_new sample_config)\<lparr>state := Running\<rparr>))
     = [Emit (EvError ''task-1'' ''reset'')]"
  using terminal_transitions_only_when_running
    [of "(Transport_new sample_config)\<lparr>state := Paused\<rparr>" "ErrString ''late''"
        "[RequestRejected (ErrString ''reset''), RequestFulfilled, AliveTimerFires 20000 []]"]
  by (simp add: Transport_new_def sample_config_def Transport_on_request_rejected_def
      Transport_on_request_fulfilled_def Transport_checkError_def Transport_checkFinish_def
      Transport_isRunning_def Transport_aliveTimer_fires_def)

text \<open>
  The watchdog when it is armed. A \<open>drain\<close> event of a download, or a \<open>progress\<close>
  event of an upload, at time \<open>now\<close> sets the deadline to \<open>now + 10000\<close> ms, replacing
  a pending one. Before the deadline nothing fires. When the deadline has passed with no
  further progress event, a download that has a write stream and is Running emits the
  timeout error, goes to Error and ends the write stream; an upload emits \<open>abort\<close> on
  its read stream.
\<close>

lemma watchdog_after_progress:
  assumes "aliveTimer t = Some deadline" and "outputStream t \<noteq> None" and "state t = Running"
    and "aliveTimer m = Some deadline'" and "stream m \<noteq> None"
  shows "aliveTimer (fst (Transport_on_drain now t)) = Some (now + 10000)
       \<and> aliveTimer (fst (MultiTransport_on_progress now n m)) = Some (now + 10000)
       \<and> Transport_aliveTimer_fires now stack t =
           (if deadline \<le> now
            then (t\<lparr>aliveTimer := None, state := Error\<rparr>,
                  [Emit (EvError (uuid t) (msg_timeout @ stack)), StreamEnd])
            else (t, []))
       \<and> MultiTransport_aliveTimer_fires now m =
           (if deadline' \<le> now then (m\<lparr>aliveTimer := None\<rparr>, [StreamAbort]) else (m, []))"
  using assms
  by (simp add: Transport_on_drain_def Transport_checkAlive_def
      MultiTransport_on_progress_def MultiTransport_checkAlive_def
      Transport_aliveTimer_fires_def Transport_onTimeout_def
      Transport_checkError_def Transport_isRunning_def MultiTransport_aliveTimer_fires_def)

text \<open>
  The watchdog when it is not armed. Only the \<open>drain\<close> handler calls \<open>_checkAlive\<close>:
  no other callback of a download sets the timer, \<open>start()\<close> and \<open>resume()\<close> do not,
  and without a pending timer nothing fires, at any time. The same holds for an upload
  and its \<open>progress\<close> handler.
\<close>

lemma timer_unset_after_start:
  "aliveTimer t = None \<Longrightarrow>
     aliveTimer (fst (Transport_start_sync lf t)) = None
     \<and> aliveTimer (fst (Transport_resume b e t)) = None"
  by (cases lf)
     (auto simp: Transport_start_sync_def Transport_resume_def Transport_checkError_def
        Let_def split: option.splits)

lemma timer_set_only_by_drain:
  assumes "aliveTimer t = None" and "\<forall>now. c \<noteq> StreamDrain now"
  shows "aliveTimer (fst (Transport_callback c t)) = None"
  using assms
  by (cases c)
     (auto simp: Transport_start_on_metadata_def Transport_start_on_metadata_error_def
        Transport_on_request_fulfilled_def Transport_on_request_rejected_def
        Transport_on_stream_error_def Transport_aliveTimer_fires_def Transport_pause_def
        Transport_resume_def Transport_checkFinish_def Transport_checkError_def Let_def)

lemma unarmed_watchdog_never_fires:
  "aliveTimer t = None \<Longrightarrow> Transport_aliveTimer_fires now stack t = (t, [])"
  and "aliveTimer m = None \<Longrightarrow> MultiTransport_aliveTimer_fires now m = (m, [])"
  by (simp_all add: Transport_aliveTimer_fires_def MultiTransport_aliveTimer_fires_def)

lemma upload_timer_set_only_by_progress:
  assumes "aliveTimer m = None"
  shows "aliveTimer (fst (MultiTransport_invoke p m)) = None
       \<and> aliveTimer (MultiTransport_resume ps m) = None
       \<and> aliveTimer (fst (MultiTransport_aliveTimer_fires now m)) = None"
  using assms
  by (simp add: MultiTransport_invoke_def MultiTransport_resume_def
      MultiTransport_aliveTimer_fires_def Let_def)

text \<open>
  C9. The claim: for every transport with an active stream, the watchdog fires when no
  progress event arrives within ten seconds. The code arms the watchdog, whose comment
  says that it guarantees that the write stream gets closed, only from the handler of
  progress events. A download that has started, has an open write stream and is
  Running, but whose stream never drains, has no timer: ten seconds, a minute and an
  hour later nothing has fired, the task is still Running and the stream open.
  Likewise an upload whose request has been sent and whose read stream reports no
  progress: no \<open>abort\<close> is emitted and the request stays in flight.
\<close>

theorem watchdog_silent_without_progress:
  "Transport_start_sync (Absent None)
     (Transport_new \<lparr>cfg_uuid = ''task-1'', cfg_bucketName = ''bucket'',
        cfg_objectKey = ''a.bin'', cfg_localPath = ''/tmp/a.bin''\<rparr>)
   = (\<lparr>uuid = ''task-1'', objectKey = ''a.bin'', localPath = ''/tmp/a.bin'',
       bucketName = ''bucket'', state = Running,
       outputStream = Some \<lparr>ws_path = ''/tmp/a.bin'', ws_flags = ''w''\<rparr>,
       aliveTimer = None\<rparr>,
      [MkdirpParent ''/tmp/a.bin'', CreateWriteStream ''/tmp/a.bin'' ''w'',
       SendGet ''bucket'' ''a.bin'' NoRange])
   \<and> Transport_callbacks
       [AliveTimerFires 10000 [], AliveTimerFires 60000 [], AliveTimerFires 3600000 []]
       \<lparr>uuid = ''task-1'', objectKey = ''a.bin'', localPath = ''/tmp/a.bin'',
        bucketName = ''bucket'', state = Running,
        outputStream = Some \<lparr>ws_path = ''/tmp/a.bin'', ws_flags = ''w''\<rparr>,
        aliveTimer = None\<rparr>
     = (\<lparr>uuid = ''task-1'', objectKey = ''a.bin'', localPath = ''/tmp/a.bin'',
         bucketName = ''bucket'', state = Running,
         outputStream = Some \<lparr>ws_path = ''/tmp/a.bin'', ws_flags = ''w''\<rparr>,
         aliveTimer = None\<rparr>, [])
   \<and> snd (MultiTransport_events
         [QueueProcess, UploadTimerFires 10000, UploadTimerFires 60000,
          UploadTimerFires 3600000]
         (MultiTransport_resume
            [\<lparr>partNumber = 2, partSize = Finite 20971520, start = Finite 20971520\<rparr>]
            sample_upload))
     = [CreateReadStream ''/tmp/b.bin'' (Finite 20971520) (Finite 41943039),
        SendPut ''bucket'' ''b.bin'' 2 (Some ''upload-1'') (Finite 20971520)]
   \<and> map fst (q_workers (part_queue (fst (MultiTransport_events
         [QueueProcess, UploadTimerFires 10000, UploadTimerFires 60000,
          UploadTimerFires 3600000]
         (MultiTransport_resume
            [\<lparr>partNumber = 2, partSize = Finite 20971520, start = Finite 20971520\<rparr>]
            sample_upload))))) = [0]"
  by (simp add: Transport_start_sync_def Transport_new_def Transport_resume_def
      js_truthy_def Transport_aliveTimer_fires_def Let_def
      MultiTransport_resume_def sample_upload_def q_push_def q_new_def
      MultiTransport_queue_process.simps q_take_def MultiTransport_invoke_def
      MultiTransport_aliveTimer_fires_def js_sub_def fl_int_safe)


section \<open>The part queue of an upload\<close>

lemma q_take_Some:
  "q_take q = Some (cb, x, q') \<Longrightarrow>
     q_tasks q = x # q_tasks q' \<and> length (q_workers q) < q_concurrency q
     \<and> q_workers q' = q_workers q @ [(cb, x)] \<and> q_concurrency q' = q_concurrency q"
  by (auto simp: q_take_def split: list.splits if_splits)

lemma q_done_Some:
  "q_done cb q = Some q' \<Longrightarrow>
     q_tasks q' = q_tasks q \<and> length (q_workers q') \<le> length (q_workers q)
     \<and> q_concurrency q' = q_concurrency q"
  by (auto simp: q_done_def split: if_splits)

lemma invoke_queue: "part_queue (fst (MultiTransport_invoke p m)) = part_queue m"
  by (simp add: MultiTransport_invoke_def Let_def)

lemma invoke_puts: "puts (snd (MultiTransport_invoke p m)) = [partNumber p]"
  by (simp add: MultiTransport_invoke_def Let_def)

text \<open>
  With concurrency 1 the loop of the queue keeps at most one part running, and the
  requests it sends are the parts it takes off the waiting list, in order.
\<close>

lemma queue_process_sequential:
  assumes "q_concurrency (part_queue m) = 1" and "length (q_workers (part_queue m)) \<le> 1"
  shows "q_concurrency (part_queue (fst (MultiTransport_queue_process m))) = 1
       \<and> length (q_workers (part_queue (fst (MultiTransport_queue_process m)))) \<le> 1
       \<and> puts (snd (MultiTransport_queue_process m))
           @ map partNumber (q_tasks (part_queue (fst (MultiTransport_queue_process m))))
         = map partNumber (q_tasks (part_queue m))"
  using assms
proof (induction m rule: MultiTransport_queue_process.induct)
  case (1 m)
  show ?case
  proof (cases "q_take (part_queue m)")
    case None
    with "1.prems" show ?thesis
      by (subst (1 2 3 4) MultiTransport_queue_process.simps) simp
  next
    case (Some a)
    then obtain cb p q where a: "a = (cb, p, q)" by (cases a) auto
    let ?m1 = "fst (MultiTransport_invoke p (m\<lparr>part_queue := q\<rparr>))"
    let ?es1 = "snd (MultiTransport_invoke p (m\<lparr>part_queue := q\<rparr>))"
    from Some a have take: "q_take (part_queue m) = Some (cb, p, q)" by simp
    note t = q_take_Some [OF take]
    have q1: "part_queue ?m1 = q" by (simp add: invoke_queue)
    have c1: "q_concurrency (part_queue ?m1) = 1" using t "1.prems" q1 by simp
    have w1: "length (q_workers (part_queue ?m1)) \<le> 1" using t "1.prems" q1 by simp
    have IH: "q_concurrency (part_queue (fst (MultiTransport_queue_process ?m1))) = 1
       \<and> length (q_workers (part_queue (fst (MultiTransport_queue_process ?m1)))) \<le> 1
       \<and> puts (snd (MultiTransport_queue_process ?m1))
           @ map partNumber (q_tasks (part_queue (fst (MultiTransport_queue_process ?m1))))
         = map partNumber (q_tasks (part_queue ?m1))"
      using "1.IH" [OF take refl refl refl prod.collapse] c1 w1 by simp
    have unfold: "MultiTransport_queue_process m =
        (fst (MultiTransport_queue_process ?m1), ?es1 @ snd (MultiTransport_queue_process ?m1))"
      by (subst MultiTransport_queue_process.simps) (simp add: take split_beta Let_def)
    have p: "puts (?es1 @ es) = partNumber p # puts es" for es
      by (simp add: MultiTransport_invoke_def Let_def)
    show ?thesis
      using IH t q1 by (simp add: unfold p)
  qed
qed

lemma puts_append: "puts (es @ es') = puts es @ puts es'"
  by (induction es rule: puts.induct) simp_all

lemma queue_process_idle_tasks:
  "q_tasks (part_queue m) = [] \<Longrightarrow> MultiTransport_queue_process m = (m, [])"
  by (subst MultiTransport_queue_process.simps) (simp add: q_take_def)

lemma event_sequential:
  assumes c: "q_concurrency (part_queue m) = 1"
    and w: "length (q_workers (part_queue m)) \<le> 1"
  shows "q_concurrency (part_queue (fst (MultiTransport_event e m))) = 1
       \<and> length (q_workers (part_queue (fst (MultiTransport_event e m)))) \<le> 1
       \<and> prefix (puts (snd (MultiTransport_event e m))
                  @ map partNumber (q_tasks (part_queue (fst (MultiTransport_event e m)))))
                (map partNumber (q_tasks (part_queue m)))"
proof (cases e)
  case QueueProcess
  with queue_process_sequential [OF c w] show ?thesis by simp
next
  case (PutFulfilled cb)
  show ?thesis
  proof (cases "map_of (q_workers (part_queue m)) cb")
    case None
    with PutFulfilled c w show ?thesis
      by (simp add: MultiTransport_put_fulfilled_def)
  next
    case (Some p)
    show ?thesis
    proof (cases "q_done cb (part_queue m)")
      case None
      with PutFulfilled Some c w show ?thesis
        by (simp add: MultiTransport_put_fulfilled_def)
    next
      case (Some q)
      let ?m1 = "m\<lparr>uploadedSize := js_add (uploadedSize m) (partSize p), part_queue := q\<rparr>"
      let ?m2 = "if q_idle q \<and> resume_promise m = Pending
                 then ?m1\<lparr>resume_promise := Resolved\<rparr> else ?m1"
      note d = q_done_Some [OF Some]
      have q2: "part_queue ?m2 = q" by simp
      have c2: "q_concurrency (part_queue ?m2) = 1" using d c by simp
      have w2: "length (q_workers (part_queue ?m2)) \<le> 1" using d w by simp
      have e: "MultiTransport_event e m = MultiTransport_queue_process ?m2"
        using PutFulfilled \<open>map_of (q_workers (part_queue m)) cb = Some p\<close> Some
        by (simp add: MultiTransport_put_fulfilled_def Let_def)
      from queue_process_sequential [OF c2 w2] d show ?thesis
        unfolding e q2 by simp
    qed
  qed
next
  case (PutRejected cb err)
  show ?thesis
  proof (cases "q_done cb (part_queue m)")
    case None
    with PutRejected c w show ?thesis
      by (simp add: MultiTransport_put_rejected_def)
  next
    case (Some q)
    note d = q_done_Some [OF Some]
    with PutRejected Some c w show ?thesis
      by (simp add: MultiTransport_put_rejected_def queue_process_idle_tasks q_kill_def)
  qed
next
  case (StreamProgress now n)
  with c w show ?thesis
    by (simp add: MultiTransport_on_progress_def MultiTransport_checkAlive_def)
next
  case (UploadTimerFires now)
  with c w show ?thesis
    by (simp add: MultiTransport_aliveTimer_fires_def split: option.splits)
qed

lemma events_sequential:
  assumes "q_concurrency (part_queue m) = 1"
    and "length (q_workers (part_queue m)) \<le> 1"
  shows "length (q_workers (part_queue (fst (MultiTransport_events evs m)))) \<le> 1
       \<and> prefix (puts (snd (MultiTransport_events evs m))
                  @ map partNumber (q_tasks (part_queue (fst (MultiTransport_events evs m)))))
                (map partNumber (q_tasks (part_queue m)))"
  using assms
proof (induction evs arbitrary: m)
  case Nil
  then show ?case by simp
next
  case (Cons e evs)
  let ?m1 = "fst (MultiTransport_event e m)"
  let ?es1 = "snd (MultiTransport_event e m)"
  let ?r = "MultiTransport_events evs ?m1"
  note s = event_sequential [OF Cons.prems, of e]
  from s Cons.IH [of ?m1]
  have IH: "length (q_workers (part_queue (fst ?r))) \<le> 1
      \<and> prefix (puts (snd ?r) @ map partNumber (q_tasks (part_queue (fst ?r))))
               (map partNumber (q_tasks (part_queue ?m1)))"
    by simp
  then have "prefix (puts ?es1 @ puts (snd ?r) @ map partNumber (q_tasks (part_queue (fst ?r))))
               (puts ?es1 @ map partNumber (q_tasks (part_queue ?m1)))"
    by simp
  with s have "prefix (puts ?es1 @ puts (snd ?r) @ map partNumber (q_tasks (part_queue (fst ?r))))
               (map partNumber (q_tasks (part_queue m)))"
    using prefix_order.trans by blast
  with IH show ?case
    by (simp add: split_beta Let_def puts_append)
qed

text \<open>
  C7. After \<open>resume(remainParts)\<close>, whatever happens to the requests and in whatever
  order the events arrive, the queue of the task has at most one part running (one
  request in flight), and the requests sent so far are, in order, an initial segment
  of \<open>remainParts\<close>.
\<close>

theorem one_part_in_flight:
  "length (q_workers (part_queue
       (fst (MultiTransport_events evs (MultiTransport_resume remainParts m))))) \<le> 1
   \<and> prefix (puts (snd (MultiTransport_events evs (MultiTransport_resume remainParts m))))
            (map partNumber remainParts)"
proof -
  let ?m0 = "MultiTransport_resume remainParts m"
  have c: "q_concurrency (part_queue ?m0) = 1"
    by (simp add: MultiTransport_resume_def q_push_def q_new_def)
  have w: "length (q_workers (part_queue ?m0)) \<le> 1"
    by (simp add: MultiTransport_resume_def q_push_def q_new_def)
  have t: "q_tasks (part_queue ?m0) = remainParts"
    by (simp add: MultiTransport_resume_def q_push_def q_new_def)
  from events_sequential [OF c w, of evs] show ?thesis
    unfolding t using append_prefixD by blast
qed

text \<open>
  The three parts of the 55 MiB file: the second request is sent when the first has
  succeeded, the third when the second has; after that the third is in flight.
\<close>

theorem one_part_in_flight_witness:
  "map fst (q_workers (part_queue (fst (MultiTransport_events
       [QueueProcess, QueueProcess, PutFulfilled 0, StreamProgress 500 (Finite 4096),
        PutFulfilled 1]
       (MultiTransport_resume (plan 20971520 57671680 0 1) sample_upload))))) = [2]
   \<and> puts (snd (MultiTransport_events
       [QueueProcess, QueueProcess, PutFulfilled 0, StreamProgress 500 (Finite 4096),
        PutFulfilled 1]
       (MultiTransport_resume (plan 20971520 57671680 0 1) sample_upload))) = [1, 2, 3]
   \<and> puts (snd (MultiTransport_events [QueueProcess, QueueProcess]
       (MultiTransport_resume (plan 20971520 57671680 0 1) sample_upload))) = [1]"
  using one_part_in_flight
    [of "[QueueProcess, QueueProcess, PutFulfilled 0, StreamProgress 500 (Finite 4096),
          PutFulfilled 1]"
        "plan 20971520 57671680 0 1" sample_upload]
  by (simp add: plan.simps MultiTransport_resume_def sample_upload_def q_push_def q_new_def
      MultiTransport_queue_process.simps q_take_def q_done_def q_idle_def
      MultiTransport_invoke_def MultiTransport_put_fulfilled_def
      MultiTransport_on_progress_def MultiTransport_checkAlive_def Let_def js_sub_def
      fl_int_safe)


section \<open>The dispatcher\<close>

lemma bounded_queue_eq:
  "q_concurrency (task_queue d') = q_concurrency (task_queue d) \<Longrightarrow>
   q_workers (task_queue d') = q_workers (task_queue d) \<Longrightarrow> bounded d \<Longrightarrow> bounded d'"
  by (simp add: bounded_def)

lemma done_bounded: "bounded d \<Longrightarrow> bounded (reached (Dispatcher_done cb d))"
proof -
  assume b: "bounded d"
  then have "length (q_workers (task_queue d)) \<le> 5" by (simp add: bounded_def)
  then have "length (filter (\<lambda>w. fst w \<noteq> cb) (q_workers (task_queue d))) \<le> 5"
    by (rule order_trans [OF length_filter_le])
  with b show ?thesis
    by (simp add: Dispatcher_done_def q_done_def bounded_def)
qed

lemma listener_bounded: "bounded d \<Longrightarrow> bounded (reached (Dispatcher_listener cb ev d))"
proof (cases ev)
  case (EvFinish u k)
  assume b: "bounded d"
  let ?d1 = "Dispatcher_send NotifyFinished (MsgEvent (EvFinish u k)) d"
  let ?d2 = "?d1\<lparr>transportCache := (transportCache ?d1)(u := None)\<rparr>"
  have "bounded ?d2" using b by (simp add: bounded_def Dispatcher_send_def)
  then show ?thesis using EvFinish by (simp add: Let_def done_bounded)
next
  case (EvError u e)
  assume b: "bounded d"
  then have "bounded (Dispatcher_send NotifyError (MsgEvent (EvError u e)) d)"
    by (simp add: bounded_def Dispatcher_send_def)
  then show ?thesis using EvError by (simp add: done_bounded)
next
  case (EvPause u)
  assume b: "bounded d"
  then have "bounded (Dispatcher_send NotifyPaused (MsgEvent (EvPause u)) d)"
    by (simp add: bounded_def Dispatcher_send_def)
  then show ?thesis using EvPause by (simp add: done_bounded)
next
  case (EvProgress u n)
  assume "bounded d"
  then show ?thesis using EvProgress by simp
qed

lemma emit_to_bounded: "bounded d \<Longrightarrow> bounded (reached (emit_to cbs ev d))"
proof (induction cbs arbitrary: d)
  case Nil
  then show ?case by simp
next
  case (Cons cb cbs)
  from listener_bounded [OF Cons.prems, of cb ev] Cons.IH
  show ?case by (cases "Dispatcher_listener cb ev d") simp_all
qed

lemma emit_bounded: "bounded d \<Longrightarrow> bounded (reached (emit r ev d))"
  by (simp add: emit_def emit_to_bounded split: option.splits)

lemma perform_bounded: "bounded d \<Longrightarrow> bounded (reached (perform r es d))"
proof (induction r es d rule: perform.induct)
  case (1 r d)
  then show ?case by simp
next
  case (2 r ev es d)
  from emit_bounded [OF "2.prems", of r ev] "2.IH"
  show ?case by (cases "emit r ev d") simp_all
qed (simp_all add: bounded_def)

lemma call_bounded: "bounded d \<Longrightarrow> bounded (reached (call r method d))"
proof -
  assume b: "bounded d"
  show ?thesis
  proof (cases "objects d r")
    case None
    with b show ?thesis by (simp add: call_def)
  next
    case (Some ob)
    have "bounded (d\<lparr>objects := (objects d)(r \<mapsto> ob\<lparr>obj := fst (method (obj ob))\<rparr>)\<rparr>)"
      using b by (simp add: bounded_def)
    then show ?thesis using Some
      by (simp add: call_def split_beta perform_bounded)
  qed
qed

lemma invoke_bounded: "bounded d \<Longrightarrow> bounded (reached (Dispatcher_invoke file r cb d))"
proof -
  assume b: "bounded d"
  show ?thesis
  proof (cases "objects d r")
    case None
    with b show ?thesis by (simp add: Dispatcher_invoke_def)
  next
    case (Some ob)
    let ?d1 = "d\<lparr>objects := (objects d)(r \<mapsto> ob\<lparr>listeners := listeners ob @ [cb]\<rparr>)\<rparr>"
    let ?c = "if Transport_isPaused (obj ob)
              then call r (Transport_resume (Finite 0) (Finite 0)) ?d1
              else call r (Transport_start_sync file) ?d1"
    have "bounded ?d1" using b by (simp add: bounded_def)
    then have "bounded (reached ?c)" by (simp add: call_bounded)
    then show ?thesis using Some
      by (cases ?c) (simp_all add: Dispatcher_invoke_def Let_def bounded_def Dispatcher_send_def)
  qed
qed

lemma admit_bounded: "bounded d \<Longrightarrow> bounded (reached (Dispatcher_admit file d))"
proof -
  assume b: "bounded d"
  show ?thesis
  proof (cases "q_take (task_queue d)")
    case None
    with b show ?thesis by (simp add: Dispatcher_admit_def)
  next
    case (Some a)
    then obtain cb c q where a: "q_take (task_queue d) = Some (cb, c, q)"
      by (cases a) auto
    then have "length (q_workers q) \<le> q_concurrency (task_queue d)
        \<and> q_concurrency q = q_concurrency (task_queue d)"
      by (auto simp: q_take_def split: list.splits if_splits)
    with b have "bounded (d\<lparr>task_queue := q\<rparr>)" by (simp add: bounded_def)
    then show ?thesis using a
      by (cases c) (simp_all add: Dispatcher_admit_def invoke_bounded)
  qed
qed

lemma resumeItem_bounded: "bounded d \<Longrightarrow> bounded (Dispatcher_resumeItem u d)"
  by (simp add: Dispatcher_resumeItem_def bounded_def q_unshift_def split: option.splits)

lemma addItem_bounded: "bounded d \<Longrightarrow> bounded (Dispatcher_addItem cfg d)"
  by (simp add: Dispatcher_addItem_def Let_def resumeItem_bounded bounded_queue_eq)

lemma addPatch_bounded:
  "bounded d \<Longrightarrow> bounded (Dispatcher_addPatch pj j u bucket p keys path d)"
  by (induction keys arbitrary: d) (simp_all add: addItem_bounded)

lemma pauseItem_bounded:
  "bounded d \<Longrightarrow> bounded (reached (Dispatcher_pauseItem_on pause u d))"
  by (simp add: Dispatcher_pauseItem_on_def call_bounded split: option.splits cached.splits)

lemma pause_each_bounded: "bounded d \<Longrightarrow> bounded (reached (pause_each rs d))"
proof (induction rs d rule: pause_each.induct)
  case (1 d)
  then show ?case by simp
next
  case (2 k rs d)
  then show ?case by simp
next
  case (3 r rs d)
  from call_bounded [OF "3.prems", of r Transport_pause]
  have c: "bounded (reached (call r Transport_pause d))" .
  show ?case
  proof (cases "call r Transport_pause d")
    case (Returned d1)
    with c have "bounded (d1\<lparr>task_queue := (task_queue d1)\<lparr>q_tasks := rs\<rparr>\<rparr>)"
      by (simp add: bounded_def)
    with Returned "3.IH" show ?thesis by simp
  next
    case (Threw e d1)
    with c show ?thesis by simp
  qed
qed

lemma step_bounded: "bounded d \<Longrightarrow> bounded (reached (Dispatcher_step s d))"
  by (cases s)
     (simp_all add: addItem_bounded addPatch_bounded resumeItem_bounded admit_bounded
        call_bounded pause_each_bounded pauseItem_bounded Dispatcher_pauseAll_def
        Dispatcher_pauseItem_def)

lemma run_bounded: "bounded d \<Longrightarrow> bounded (Dispatcher_run steps d)"
proof (induction steps arbitrary: d)
  case Nil
  then show ?case by simp
next
  case (Cons s steps)
  from step_bounded [OF Cons.prems, of s] Cons.IH
  show ?case by (cases "Dispatcher_step s d") simp_all
qed

text \<open>The definitions that evaluate a run of the Dispatcher.\<close>

lemmas dispatcher_defs =
  Dispatcher_new_def Dispatcher_addItem_def Dispatcher_resumeItem_def Dispatcher_admit_def
  Dispatcher_invoke_def Dispatcher_pauseItem_def Dispatcher_pauseItem_on_def
  Dispatcher_pauseAll_def Dispatcher_send_def cache_get_def object_prototype_keys_def
  Dispatcher_done_def call_def emit_def q_new_def q_take_def q_done_def q_unshift_def
  Transport_new_def Transport_isPaused_def Transport_start_sync_def Transport_resume_def
  Transport_pause_def js_truthy_def Let_def

text \<open>
  C5. Whatever commands a Dispatcher is sent, whatever its queue and its transports do
  and in whatever order, at most 5 tasks are active at any time.
\<close>

theorem at_most_five_active:
  "length (active (Dispatcher_run steps Dispatcher_new)) \<le> 5"
proof -
  have "bounded Dispatcher_new"
    by (simp add: bounded_def Dispatcher_new_def q_new_def)
  then have "bounded (Dispatcher_run steps Dispatcher_new)"
    by (rule run_bounded)
  then show ?thesis by (simp add: bounded_def active_def)
qed

text \<open>Seven tasks added in a burst: five become active, two wait.\<close>

theorem at_most_five_active_witness:
  "length (active (Dispatcher_run
      ([AddItem (sample_config\<lparr>cfg_uuid := ''task-1''\<rparr>),
        AddItem (sample_config\<lparr>cfg_uuid := ''task-2''\<rparr>),
        AddItem (sample_config\<lparr>cfg_uuid := ''task-3''\<rparr>),
        AddItem (sample_config\<lparr>cfg_uuid := ''task-4''\<rparr>),
        AddItem (sample_config\<lparr>cfg_uuid := ''task-5''\<rparr>),
        AddItem (sample_config\<lparr>cfg_uuid := ''task-6''\<rparr>),
        AddItem (sample_config\<lparr>cfg_uuid := ''task-7''\<rparr>)]
       @ replicate 7 (Admit (Absent None))) Dispatcher_new)) = 5
   \<and> length (q_tasks (task_queue (Dispatcher_run
      ([AddItem (sample_config\<lparr>cfg_uuid := ''task-1''\<rparr>),
        AddItem (sample_config\<lparr>cfg_uuid := ''task-2''\<rparr>),
        AddItem (sample_config\<lparr>cfg_uuid := ''task-3''\<rparr>),
        AddItem (sample_config\<lparr>cfg_uuid := ''task-4''\<rparr>),
        AddItem (sample_config\<lparr>cfg_uuid := ''task-5''\<rparr>),
        AddItem (sample_config\<lparr>cfg_uuid := ''task-6''\<rparr>),
        AddItem (sample_config\<lparr>cfg_uuid := ''task-7''\<rparr>)]
       @ replicate 7 (Admit (Absent None))) Dispatcher_new))) = 2"
proof -
  let ?steps = "[AddItem (sample_config\<lparr>cfg_uuid := ''task-1''\<rparr>),
        AddItem (sample_config\<lparr>cfg_uuid := ''task-2''\<rparr>),
        AddItem (sample_config\<lparr>cfg_uuid := ''task-3''\<rparr>),
        AddItem (sample_config\<lparr>cfg_uuid := ''task-4''\<rparr>),
        AddItem (sample_config\<lparr>cfg_uuid := ''task-5''\<rparr>),
        AddItem (sample_config\<lparr>cfg_uuid := ''task-6''\<rparr>),
        AddItem (sample_config\<lparr>cfg_uuid := ''task-7''\<rparr>)]
       @ replicate 7 (Admit (Absent None))"
  have "5 \<le> length (active (Dispatcher_run ?steps Dispatcher_new))"
    by (simp add: dispatcher_defs sample_config_def active_def numeral_eq_Suc)
  moreover have "length (q_tasks (task_queue (Dispatcher_run ?steps Dispatcher_new))) = 2"
    by (simp add: dispatcher_defs sample_config_def numeral_eq_Suc)
  ultimately show ?thesis using at_most_five_active [of ?steps] by simp
qed

text \<open>What the listeners of a \<open>pause\<close> event leave alone.\<close>

lemma done_frame:
  "transportCache (reached (Dispatcher_done cb d)) = transportCache d
   \<and> objects (reached (Dispatcher_done cb d)) = objects d
   \<and> q_tasks (task_queue (reached (Dispatcher_done cb d))) = q_tasks (task_queue d)"
  by (simp add: Dispatcher_done_def q_done_def)

lemma emit_to_pause_frame:
  "transportCache (reached (emit_to cbs (EvPause u) d)) = transportCache d
   \<and> objects (reached (emit_to cbs (EvPause u) d)) = objects d
   \<and> q_tasks (task_queue (reached (emit_to cbs (EvPause u) d))) = q_tasks (task_queue d)"
proof (induction cbs arbitrary: d)
  case Nil
  then show ?case by simp
next
  case (Cons cb cbs)
  let ?d0 = "Dispatcher_send NotifyPaused (MsgEvent (EvPause u)) d"
  have f: "transportCache (reached (Dispatcher_done cb ?d0)) = transportCache d
     \<and> objects (reached (Dispatcher_done cb ?d0)) = objects d
     \<and> q_tasks (task_queue (reached (Dispatcher_done cb ?d0))) = q_tasks (task_queue d)"
    using done_frame [of cb ?d0] by (simp add: Dispatcher_send_def)
  show ?case
  proof (cases "Dispatcher_done cb ?d0")
    case (Returned d1)
    with f Cons.IH [of d1] show ?thesis by simp
  next
    case (Threw e d1)
    with f show ?thesis by simp
  qed
qed

text \<open>
  A pause method whose effects are the end of a stream, if any, and the \<open>pause\<close>
  event: called on a stored object, it changes that object and nothing else of cache,
  store and waiting list.
\<close>

lemma pause_call_frame:
  assumes ob: "objects d r = Some ob"
    and m: "pause (obj ob) = (t, ends @ [Emit (EvPause u)])"
    and ends: "ends = [] \<or> ends = [StreamEnd]"
  shows "transportCache (reached (call r pause d)) = transportCache d
       \<and> objects (reached (call r pause d)) = (objects d)(r \<mapsto> ob\<lparr>obj := t\<rparr>)
       \<and> q_tasks (task_queue (reached (call r pause d))) = q_tasks (task_queue d)"
proof -
  let ?d1 = "d\<lparr>objects := (objects d)(r \<mapsto> ob\<lparr>obj := t\<rparr>)\<rparr>"
  have e: "reached (emit r (EvPause u) d') = reached (emit_to (listeners ob) (EvPause u) d')"
    if "objects d' r = Some (ob\<lparr>obj := t\<rparr>)" for d'
    using that by (simp add: emit_def)
  have p: "reached (perform r [Emit (EvPause u)] d') = reached (emit r (EvPause u) d')" for d'
    by (cases "emit r (EvPause u) d'") simp_all
  from ends show ?thesis
  proof
    assume "ends = []"
    then have "reached (call r pause d) = reached (emit_to (listeners ob) (EvPause u) ?d1)"
      using ob m p [of ?d1] e [of ?d1] by (simp add: call_def del: perform.simps)
    then show ?thesis using emit_to_pause_frame [of "listeners ob" u ?d1] by simp
  next
    assume s: "ends = [StreamEnd]"
    let ?d2 = "?d1\<lparr>io := io ?d1 @ [(r, StreamEnd)]\<rparr>"
    have "reached (call r pause d) = reached (emit_to (listeners ob) (EvPause u) ?d2)"
      using ob m s p [of ?d2] e [of ?d2] by (simp add: call_def del: perform.simps(2))
    then show ?thesis using emit_to_pause_frame [of "listeners ob" u ?d2] by simp
  qed
qed




text \<open>
  The same for the Dispatcher of the sources and its download transports, whatever the
  listeners of the object are: when \<open>pauseItem\<close> returns, \<open>resumeItem\<close> finds the cache
  as it was and the same object, Paused, and puts it at the front of the queue.
\<close>

lemma download_pause_then_resume:
  assumes "transportCache d u = Some r" and "objects d r = Some ob"
    and "Dispatcher_pauseItem u d = Returned d1"
  shows "transportCache (Dispatcher_resumeItem u d1) = transportCache d
       \<and> objects (Dispatcher_resumeItem u d1) r = Some (ob\<lparr>obj := (obj ob)\<lparr>state := Paused\<rparr>\<rparr>)
       \<and> q_tasks (task_queue (Dispatcher_resumeItem u d1)) = Object r # q_tasks (task_queue d)"
proof -
  have c: "cache_get d u = Some (Object r)"
    using assms(1) by (simp add: cache_get_def)
  then have p: "Dispatcher_pauseItem u d = call r Transport_pause d"
    by (simp add: Dispatcher_pauseItem_def Dispatcher_pauseItem_on_def)
  have m: "Transport_pause (obj ob) =
      ((obj ob)\<lparr>state := Paused\<rparr>,
       (if outputStream (obj ob) \<noteq> None then [StreamEnd] else [])
         @ [Emit (EvPause (uuid (obj ob)))])"
    by (simp add: Transport_pause_def)
  have f: "transportCache d1 = transportCache d
       \<and> objects d1 = (objects d)(r \<mapsto> ob\<lparr>obj := (obj ob)\<lparr>state := Paused\<rparr>\<rparr>)
       \<and> q_tasks (task_queue d1) = q_tasks (task_queue d)"
    using pause_call_frame [where pause = Transport_pause and d = d and ob = ob, OF assms(2) m]
      assms(3)
    unfolding p by auto
  then have "cache_get d1 u = Some (Object r)"
    using assms(1) by (simp add: cache_get_def)
  with f show ?thesis
    by (simp add: Dispatcher_resumeItem_def q_unshift_def)
qed

end
